theory Spec2Isabelle
  imports Complex_Main "HOL-Library.Word" "HOL-Library.Sublist" "HOL-Library.Log_Nat"
begin

section \<open>Go errors\<close>

text \<open>
  A Go \<open>error\<close> value is either a message or \<open>fmt.Errorf("...: %w", err)\<close>, a
  message wrapped around another error. A \<open>nil\<close> error is \<open>None\<close> of
  \<open>error option\<close>; a function returning \<open>(T, error)\<close> returns \<open>error + T\<close>.
\<close>

datatype error = Error string | Errorf string "error option"

section \<open>pkg/store/dedup.go: the dedup store\<close>

text \<open>
  The table \<open>seen_items\<close> of the SQLite database: \<open>id TEXT PRIMARY KEY, brand, name,
  price, seen_at\<close>. The database handle is modelled by the rows of the table, in
  insertion order, and by whether the storage currently refuses statements (closed
  handle, I/O error, lock timeout): every statement on such a handle returns an error
  and changes nothing. Timestamps are nanoseconds since the epoch.
\<close>

record seen_item =
  id_key :: string
  brand :: string
  name :: string
  price :: int
  seen_at :: int

record sqldb =
  seen_items :: "seen_item list"
  unavailable :: bool

record DedupStore =
  db :: sqldb

text \<open>\<open>SELECT COUNT(*) FROM seen_items WHERE id = ?\<close>, scanned into an int.\<close>

definition select_count_where_id :: "sqldb \<Rightarrow> string \<Rightarrow> error + int" where
  "select_count_where_id d itemID =
     (if unavailable d then Inl (Error ''sql'')
      else Inr (int (length (filter (\<lambda>r. id_key r = itemID) (seen_items d)))))"

text \<open>\<open>SELECT COUNT(*) FROM seen_items\<close>.\<close>

definition select_count :: "sqldb \<Rightarrow> error + int" where
  "select_count d =
     (if unavailable d then Inl (Error ''sql'') else Inr (int (length (seen_items d))))"

text \<open>
  \<open>INSERT OR IGNORE INTO seen_items (id, brand, name, price, seen_at) VALUES (...)\<close>:
  the row is skipped when its primary key is already in the table.
\<close>

definition insert_or_ignore :: "sqldb \<Rightarrow> seen_item \<Rightarrow> error + sqldb" where
  "insert_or_ignore d r =
     (if unavailable d then Inl (Error ''sql'')
      else if id_key r \<in> set (map id_key (seen_items d)) then Inr d
      else Inr (d\<lparr>seen_items := seen_items d @ [r]\<rparr>))"

text \<open>\<open>HasSeen\<close>: a failed query is logged and answered \<open>false\<close>.\<close>

definition HasSeen :: "DedupStore \<Rightarrow> string \<Rightarrow> bool" where
  "HasSeen s itemID =
     (case select_count_where_id (db s) itemID of
        Inl err \<Rightarrow> False
      | Inr count \<Rightarrow> count > 0)"

text \<open>
  \<open>MarkSeen\<close>; \<open>now\<close> is the reading of \<open>time.Now().UTC()\<close>. The result is the
  returned error (\<open>None\<close> for \<open>nil\<close>) and the store afterwards.
\<close>

definition MarkSeen ::
  "DedupStore \<Rightarrow> string \<Rightarrow> string \<Rightarrow> string \<Rightarrow> int \<Rightarrow> int \<Rightarrow> error option \<times> DedupStore" where
  "MarkSeen s itemID brand' name' price' now =
     (case insert_or_ignore (db s)
             \<lparr>id_key = itemID, brand = brand', name = name', price = price', seen_at = now\<rparr> of
        Inl err \<Rightarrow> (Some (Errorf ''marking item seen'' (Some err)), s)
      | Inr d \<Rightarrow> (None, s\<lparr>db := d\<rparr>))"

text \<open>\<open>Count\<close>: a failed query is answered 0.\<close>

definition Count :: "DedupStore \<Rightarrow> int" where
  "Count s = (case select_count (db s) of Inl err \<Rightarrow> 0 | Inr count \<Rightarrow> count)"

text \<open>The primary key constraint of the table: no two rows share an id.\<close>

definition primary_key_ok :: "DedupStore \<Rightarrow> bool" where
  "primary_key_ok s = distinct (map id_key (seen_items (db s)))"

text \<open>The number of stored records with a given id.\<close>

definition records_for :: "DedupStore \<Rightarrow> string \<Rightarrow> nat" where
  "records_for s itemID = length (filter (\<lambda>r. id_key r = itemID) (seen_items (db s)))"

section \<open>pkg/mercari: listings\<close>

text \<open>
  \<open>Item\<close>, with the fields the search client fills. \<open>Created\<close> and \<open>Updated\<close> are
  seconds since the epoch; Go's \<open>int\<close> is read as a mathematical integer.
\<close>

record Item =
  ID :: string
  Name :: string
  Price :: int
  Status :: string
  ImageURLs :: "string list"
  Created :: int
  Updated :: int
  BrandName :: string
  ItemURL :: string

section \<open>pkg/mercari: the CLIP image filter\<close>

text \<open>
  A finite \<open>float64\<close> is the rational number it denotes; comparison of finite floats is
  comparison of these rationals. \<open>is_float64\<close> says that a rational is such a value:
  an integer of magnitude below \<open>2^53\<close> scaled by a power of two between \<open>2^-1074\<close> and
  \<open>2^971\<close>. The Go constant \<open>0.3\<close> in \<open>topScore > 0.3\<close> is converted to the nearest
  \<open>float64\<close>, which is \<open>5404319552844595 / 2^54\<close>, slightly below three tenths.
\<close>

type_synonym float64 = rat

definition is_float64 :: "rat \<Rightarrow> bool" where
  "is_float64 q =
     (\<exists>m::int. \<bar>m\<bar> < 2 ^ 53 \<and>
        ((\<exists>k::nat. k \<le> 971 \<and> q = of_int m * 2 ^ k) \<or>
         (\<exists>k::nat. k \<le> 1074 \<and> q = of_int m / 2 ^ k)))"

definition float64_0_3 :: float64 where
  "float64_0_3 = 5404319552844595 / 18014398509481984"

record AIFilter =
  apiKey :: string
  model :: string
  enabled :: bool
  keepLabels :: "string list"
  trashLabels :: "string list"

definition NewAIFilter :: "string \<Rightarrow> string \<Rightarrow> bool \<Rightarrow> AIFilter" where
  "NewAIFilter apiKey' model' enabled' =
     \<lparr>apiKey = apiKey',
      model = model',
      enabled = (enabled' \<and> apiKey' \<noteq> [] \<and> apiKey' \<noteq> ''YOUR_HF_API_KEY''),
      keepLabels =
        [''a hat or cap'', ''a beanie'', ''a jacket or coat'', ''a leather jacket'',
         ''a sweater or knitwear'', ''a shirt or top'', ''pants or trousers'', ''shorts'',
         ''a designer handbag'', ''a leather bag'', ''a luxury wallet'', ''designer shoes'',
         ''leather shoes or boots'', ''sunglasses'', ''a watch'', ''jewelry'',
         ''fashion accessories''],
      trashLabels =
        [''an empty box'', ''a cardboard box'', ''a shopping bag'', ''a paper bag'',
         ''a receipt'', ''a blurry photo'', ''a logo tag only'', ''a dust bag only'']\<rparr>"

text \<open>The request body (\<open>clipInputs\<close>) and the decoded response (\<open>clipResponse\<close>).\<close>

record clipInputs =
  Image :: string
  CandidateLabels :: "string list"

record clipResponse =
  Labels :: "string list"
  Scores :: "float64 list"

text \<open>
  A response body, by what \<open>encoding/json\<close> makes of its bytes: \<open>Object r\<close> when
  \<open>json.Unmarshal(body, &clipResp)\<close> succeeds and leaves \<open>r\<close> (a JSON object with fitting
  fields; for the body \<open>null\<close>, the zero value), \<open>Array rs\<close> when that fails and
  \<open>json.Unmarshal(body, &arr)\<close> into a \<open>[]clipResponse\<close> succeeds, \<open>Undecodable\<close> when
  both fail (malformed JSON, or JSON of another shape).
\<close>

datatype body = Undecodable | Object clipResponse | Array "clipResponse list"

definition unmarshal_clipResponse :: "body \<Rightarrow> error + clipResponse" where
  "unmarshal_clipResponse b =
     (case b of Object r \<Rightarrow> Inr r | _ \<Rightarrow> Inl (Error ''json: cannot unmarshal''))"

definition unmarshal_clipResponses :: "body \<Rightarrow> error + clipResponse list" where
  "unmarshal_clipResponses b =
     (case b of Array rs \<Rightarrow> Inr rs | _ \<Rightarrow> Inl (Error ''json: cannot unmarshal''))"

text \<open>
  What one pass through the request code of \<open>classifyItem\<close> meets: \<open>json.Marshal\<close> or
  \<open>http.NewRequest\<close> fails (nothing is sent), \<open>client.Do\<close> fails (transport error or
  the 30 second timeout), \<open>io.ReadAll\<close> fails, or a response with a status code and a
  body arrives. The classification service is a function from the number of requests
  already sent for the listing and the request to this outcome.
\<close>

datatype http_result =
  MarshalError | RequestError | TransportError | ReadError | Reply nat body

type_synonym clip_service = "nat \<Rightarrow> clipInputs \<Rightarrow> http_result"

text \<open>What \<open>classifyItem\<close> does to the outside: requests sent and seconds slept.\<close>

datatype event = Post clipInputs | Sleep nat

fun is_Post :: "event \<Rightarrow> bool" where
  "is_Post (Post r) = True"
| "is_Post (Sleep n) = False"

definition posts :: "event list \<Rightarrow> nat" where
  "posts tr = length (filter is_Post tr)"

text \<open>
  The loop over \<open>f.trashLabels\<close> at the end of \<open>classifyItem\<close>: true when some
  iteration returns the TRASH verdict.
\<close>

fun trash_loop :: "string list \<Rightarrow> string \<Rightarrow> float64 \<Rightarrow> bool" where
  "trash_loop [] topLabel topScore = False"
| "trash_loop (trashLabel # rest) topLabel topScore =
     (if topLabel = trashLabel \<and> topScore > float64_0_3 then True
      else trash_loop rest topLabel topScore)"

text \<open>\<open>classifyItem\<close> from the check of the labels on: \<open>(keep, topLabel, topScore)\<close>.\<close>

definition top_verdict :: "AIFilter \<Rightarrow> clipResponse \<Rightarrow> bool \<times> string \<times> float64" where
  "top_verdict f clipResp =
     (if length (Labels clipResp) = 0 \<or> length (Scores clipResp) = 0
      then (True, ''empty_result'', 0)
      else let topLabel = Labels clipResp ! 0; topScore = Scores clipResp ! 0
           in if trash_loop (trashLabels f) topLabel topScore
              then (False, topLabel, topScore)
              else (True, topLabel, topScore))"

text \<open>\<open>classifyItem\<close> on a body that came with status 200: object first, then array.\<close>

definition parse_verdict :: "AIFilter \<Rightarrow> body \<Rightarrow> bool \<times> string \<times> float64" where
  "parse_verdict f b =
     (case unmarshal_clipResponse b of
        Inr clipResp \<Rightarrow> top_verdict f clipResp
      | Inl err \<Rightarrow>
          (case unmarshal_clipResponses b of
             Inl err2 \<Rightarrow> (True, ''parse_error'', 0)
           | Inr arr \<Rightarrow>
               if length arr = 0 then (True, ''parse_error'', 0)
               else top_verdict f (arr ! 0)))"

text \<open>
  \<open>classifyItem\<close>. The trace argument holds the events so far; the function returns
  the verdict and the extended trace. On status 503 the function sleeps 20 seconds and
  calls itself; it is a partial function, and \<open>None\<close> means that it never returns.
\<close>

partial_function (option) classifyItem ::
  "AIFilter \<Rightarrow> clip_service \<Rightarrow> Item \<Rightarrow> event list
     \<Rightarrow> ((bool \<times> string \<times> float64) \<times> event list) option" where
  "classifyItem f srv item tr =
     (if length (ImageURLs item) = 0 then Some ((True, ''no_image'', 0), tr)
      else
        let imageURL = ImageURLs item ! 0;
            allLabels = keepLabels f @ trashLabels f;
            reqBody = \<lparr>Image = imageURL, CandidateLabels = allLabels\<rparr>
        in case srv (posts tr) reqBody of
             MarshalError \<Rightarrow> Some ((True, ''error'', 0), tr)
           | RequestError \<Rightarrow> Some ((True, ''error'', 0), tr)
           | TransportError \<Rightarrow> Some ((True, ''error'', 0), tr @ [Post reqBody])
           | ReadError \<Rightarrow> Some ((True, ''error'', 0), tr @ [Post reqBody])
           | Reply status b \<Rightarrow>
               if status \<noteq> 200 then
                 if status = 503
                 then classifyItem f srv item (tr @ [Post reqBody, Sleep 20])
                 else Some ((True, ''api_error'', 0), tr @ [Post reqBody])
               else Some (parse_verdict f b, tr @ [Post reqBody]))"

declare classifyItem.simps [code]

text \<open>
  \<open>FilterItems\<close>. The slice \<open>results\<close> starts with zero values. Slot \<open>i\<close> is written
  once: by the dispatch loop for a listing without images, by the goroutine of the
  listing otherwise. The goroutines run concurrently (three at a time), so the writes
  happen in an order the program does not fix: \<open>finish\<close> gives every index the time of
  its write, and the writes are performed in that order. A goroutine whose
  \<open>classifyItem\<close> never returns keeps \<open>wg.Wait()\<close>, and so \<open>FilterItems\<close>, from
  returning. The service answers each listing's requests on its own: \<open>env i\<close> serves
  the listing at index \<open>i\<close>.
\<close>

record result =
  index :: nat
  keep :: bool
  label :: string
  score :: float64

definition zero_result :: result where
  "zero_result = \<lparr>index = 0, keep = False, label = [], score = 0\<rparr>"

definition slot_result ::
  "AIFilter \<Rightarrow> (nat \<Rightarrow> clip_service) \<Rightarrow> Item list \<Rightarrow> nat \<Rightarrow> result option" where
  "slot_result f env items i =
     (if length (ImageURLs (items ! i)) = 0
      then Some \<lparr>index = i, keep = True, label = ''no_image'', score = 0\<rparr>
      else case classifyItem f (env i) (items ! i) [] of
             None \<Rightarrow> None
           | Some ((keep', label', score'), tr) \<Rightarrow>
               Some \<lparr>index = i, keep = keep', label = label', score = score'\<rparr>)"

fun write_slots ::
  "(nat \<Rightarrow> result option) \<Rightarrow> nat list \<Rightarrow> result list \<Rightarrow> result list option" where
  "write_slots slot [] results = Some results"
| "write_slots slot (i # rest) results =
     (case slot i of
        None \<Rightarrow> None
      | Some r \<Rightarrow> write_slots slot rest (results[i := r]))"

definition collect_kept :: "Item list \<Rightarrow> result list \<Rightarrow> Item list" where
  "collect_kept items results =
     map (\<lambda>i. items ! i) (filter (\<lambda>i. keep (results ! i)) [0..<length results])"

definition FilterItems ::
  "AIFilter \<Rightarrow> (nat \<Rightarrow> clip_service) \<Rightarrow> (nat \<Rightarrow> nat) \<Rightarrow> Item list \<Rightarrow> Item list option" where
  "FilterItems f env finish items =
     (if \<not> enabled f then Some items
      else if length items = 0 then Some items
      else
        case write_slots (slot_result f env items)
               (sort_key finish [0..<length items])
               (replicate (length items) zero_result) of
          None \<Rightarrow> None
        | Some results \<Rightarrow> Some (collect_kept items results))"

subsection \<open>Vocabulary for the properties of the filter\<close>

text \<open>The request \<open>classifyItem\<close> sends for a listing: its first image, all labels.\<close>

definition clip_request :: "AIFilter \<Rightarrow> Item \<Rightarrow> clipInputs" where
  "clip_request f item =
     \<lparr>Image = ImageURLs item ! 0, CandidateLabels = keepLabels f @ trashLabels f\<rparr>"

text \<open>The model-loading signal: a response with status 503.\<close>

definition loading :: "http_result \<Rightarrow> bool" where
  "loading r = (case r of Reply status b \<Rightarrow> status = 503 | _ \<Rightarrow> False)"

text \<open>The service answers some request of the listing with something else than 503.\<close>

definition eventually_answers :: "clip_service \<Rightarrow> clipInputs \<Rightarrow> bool" where
  "eventually_answers srv req = (\<exists>n. \<not> loading (srv n req))"

text \<open>The events of \<open>k\<close> rounds of request, 503, 20 seconds of sleep.\<close>

definition retries :: "nat \<Rightarrow> clipInputs \<Rightarrow> event list" where
  "retries k req = concat (replicate k [Post req, Sleep 20])"

text \<open>
  The classifier errors of the fail-open requirement: the request cannot be built or
  sent, the response cannot be read, the status is neither 200 nor 503, the body of a
  200 response decodes neither as an object nor as a non-empty array, or the decoded
  result has no labels or no scores.
\<close>

fun classifier_failure :: "http_result \<Rightarrow> bool" where
  "classifier_failure MarshalError = True"
| "classifier_failure RequestError = True"
| "classifier_failure TransportError = True"
| "classifier_failure ReadError = True"
| "classifier_failure (Reply status Undecodable) = (status \<noteq> 503)"
| "classifier_failure (Reply status (Object r)) =
     (status \<noteq> 503 \<and> (status = 200 \<longrightarrow> Labels r = [] \<or> Scores r = []))"
| "classifier_failure (Reply status (Array [])) = (status \<noteq> 503)"
| "classifier_failure (Reply status (Array (r # rs))) =
     (status \<noteq> 503 \<and> (status = 200 \<longrightarrow> Labels r = [] \<or> Scores r = []))"

text \<open>The diagnostic labels \<open>classifyItem\<close> gives to a listing it keeps on an error.\<close>

definition diagnostic_labels :: "string list" where
  "diagnostic_labels = [''error'', ''api_error'', ''parse_error'', ''empty_result'']"

text \<open>
  The classification a reply carries: the object of a 200 response, or the first
  element of its array.
\<close>

fun decoded :: "http_result \<Rightarrow> clipResponse option" where
  "decoded (Reply status (Object r)) = (if status = 200 then Some r else None)"
| "decoded (Reply status (Array (r # rs))) = (if status = 200 then Some r else None)"
| "decoded other = None"

text \<open>What \<open>classifyItem\<close> returns, and sends, on a reply that is not 503.\<close>

definition final_verdict :: "AIFilter \<Rightarrow> http_result \<Rightarrow> bool \<times> string \<times> float64" where
  "final_verdict f r =
     (case r of
        Reply status b \<Rightarrow> if status \<noteq> 200 then (True, ''api_error'', 0) else parse_verdict f b
      | _ \<Rightarrow> (True, ''error'', 0))"

definition final_events :: "http_result \<Rightarrow> clipInputs \<Rightarrow> event list" where
  "final_events r req =
     (case r of MarshalError \<Rightarrow> [] | RequestError \<Rightarrow> [] | _ \<Rightarrow> [Post req])"

subsection \<open>Example data\<close>

definition example_filter :: AIFilter where
  "example_filter = NewAIFilter ''hf_key'' ''openai/clip-vit-large-patch14'' True"

definition example_item :: Item where
  "example_item =
     \<lparr>ID = ''m123'', Name = ''bag'', Price = 5000, Status = ''ITEM_STATUS_ON_SALE'',
      ImageURLs = [''https://static.mercdn.net/m123_1.jpg''], Created = 1700000000,
      Updated = 1700000000, BrandName = ''Gucci'',
      ItemURL = ''https://jp.mercari.com/item/m123''\<rparr>"

definition example_item_no_image :: Item where
  "example_item_no_image =
     \<lparr>ID = ''m456'', Name = ''wallet'', Price = 7000, Status = ''ITEM_STATUS_ON_SALE'',
      ImageURLs = [], Created = 1700000000, Updated = 1700000000, BrandName = ''Prada'',
      ItemURL = ''https://jp.mercari.com/item/m456''\<rparr>"

text \<open>A receipt photo with score 0.75, and a hat photo with score 0.75.\<close>

definition receipt_response :: clipResponse where
  "receipt_response = \<lparr>Labels = [''a receipt'', ''a hat or cap''], Scores = [3 / 4, 1 / 4]\<rparr>"

definition hat_response :: clipResponse where
  "hat_response = \<lparr>Labels = [''a hat or cap'', ''a receipt''], Scores = [3 / 4, 1 / 4]\<rparr>"

text \<open>A service that is loading for the first two requests and then sees a receipt.\<close>

definition loading_twice :: clip_service where
  "loading_twice n req = (if n < 2 then Reply 503 Undecodable else Reply 200 (Object receipt_response))"

text \<open>A service that is loading forever.\<close>

definition always_loading :: clip_service where
  "always_loading n req = Reply 503 Undecodable"

section \<open>config: brands and search parameters\<close>

text \<open>
  \<open>Brand\<close> and the fields of \<open>Config\<close> that the scan reads. The fields \<open>Name\<close>,
  \<open>PriceMin\<close> and \<open>PriceMax\<close> of \<open>Brand\<close> carry the prefix \<open>Brand_\<close> here.
\<close>

record Brand =
  Brand_Name :: string
  Keywords :: "string list"
  Brand_PriceMin :: int
  Brand_PriceMax :: int

record Config =
  Brands :: "Brand list"
  PriceMin :: int
  PriceMax :: int
  MaxAgeMinutes :: int
  MaxDealsPerBrand :: int
  DefaultCategories :: "int list"

definition GetPriceRange :: "Config \<Rightarrow> Brand \<Rightarrow> int \<times> int" where
  "GetPriceRange c b =
     (let pMin = PriceMin c;
          pMax = PriceMax c;
          pMin = (if Brand_PriceMin b > 0 then Brand_PriceMin b else pMin);
          pMax = (if Brand_PriceMax b > 0 then Brand_PriceMax b else pMax)
      in (pMin, pMax))"

section \<open>The bot: one scan cycle\<close>

text \<open>
  \<open>time.Duration\<close> is a signed 64-bit count of nanoseconds: a \<open>64 word\<close>, read with
  \<open>sint\<close>; its arithmetic wraps around.
\<close>

type_synonym Duration = "64 word"

definition Millisecond :: Duration where
  "Millisecond = 1000000"

definition Second :: Duration where
  "Second = 1000000000"

text \<open>\<open>telegram.DealItem\<close>, its fields prefixed where \<open>Item\<close> has the same name.\<close>

record DealItem =
  Deal_Name :: string
  Deal_Price :: int
  Deal_BrandName :: string
  ImageURL :: string
  Deal_ItemURL :: string
  AgeMin :: float64

text \<open>The arguments of \<open>Scanner.SearchWithFallback\<close>.\<close>

record search_request =
  keyword :: string
  priceMin :: int
  priceMax :: int
  categories :: "int list"
  limit :: int

text \<open>
  Everything outside the process. The bot counts its interactions with the outside
  (the tick), and each interaction gets the answer the world gives at that tick:
  the result of \<open>Scanner.Search\<close>, the number drawn from \<open>math/rand\<close>, the reading of
  \<open>item.AgeMinutes()\<close> and of \<open>time.Now()\<close>, the classification service and the
  order of the goroutines of a \<open>FilterItems\<close> call, the result of
  \<open>Notifier.SendDeal\<close>, and whether the storage refuses a statement.
\<close>

record world =
  Search :: "nat \<Rightarrow> search_request \<Rightarrow> error + Item list"
  random :: "nat \<Rightarrow> nat"
  AgeMinutes :: "nat \<Rightarrow> Item \<Rightarrow> float64"
  Now :: "nat \<Rightarrow> int"
  clip :: "nat \<Rightarrow> nat \<Rightarrow> clip_service"
  goroutines :: "nat \<Rightarrow> nat \<Rightarrow> nat"
  SendDeal :: "nat \<Rightarrow> DealItem \<Rightarrow> error option"
  storage_down :: "nat \<Rightarrow> bool"

text \<open>What the bot does to the outside, in order.\<close>

datatype bot_event =
  Searched search_request
| Slept Duration
| Notified DealItem bool
| Marked string

record bot_state =
  tick :: nat
  store :: DedupStore
  trace :: "bot_event list"

text \<open>
  The five stage sizes of a scan. \<open>scanBrand\<close> returns \<open>found\<close>, \<open>newItems\<close> and
  \<open>sent\<close>; \<open>fresh\<close> and \<open>kept\<close> sum the lengths of the lists \<open>fresh\<close> and \<open>kept\<close>,
  which the code computes and logs for each keyword but does not add up.
\<close>

record counts =
  found :: int
  fresh :: int
  newItems :: int
  kept :: int
  sent :: int

definition no_counts :: counts where
  "no_counts = \<lparr>found = 0, fresh = 0, newItems = 0, kept = 0, sent = 0\<rparr>"

definition add_counts :: "counts \<Rightarrow> counts \<Rightarrow> counts" where
  "add_counts a b =
     \<lparr>found = found a + found b, fresh = fresh a + fresh b,
      newItems = newItems a + newItems b, kept = kept a + kept b, sent = sent a + sent b\<rparr>"

text \<open>
  How a call ends: it returns, it panics (a slice bound out of range), or it never
  returns (a classification that is retried forever).
\<close>

datatype 'a outcome = Returned 'a | Panicked | Blocked

definition next_tick :: "bot_state \<Rightarrow> bot_state" where
  "next_tick st = st\<lparr>tick := Suc (tick st)\<rparr>"

definition emit :: "bot_event \<Rightarrow> bot_state \<Rightarrow> bot_state" where
  "emit e st = st\<lparr>trace := trace st @ [e]\<rparr>"

text \<open>\<open>rand.Intn(n)\<close> for a positive \<open>n\<close>: a number below \<open>n\<close>.\<close>

definition rand_Intn :: "world \<Rightarrow> nat \<Rightarrow> bot_state \<Rightarrow> nat \<times> bot_state" where
  "rand_Intn w n st = (random w (tick st) mod n, next_tick st)"

text \<open>\<open>time.Sleep(d)\<close>: returns at once when \<open>d\<close> is negative or zero.\<close>

definition time_Sleep :: "Duration \<Rightarrow> bot_state \<Rightarrow> bot_state" where
  "time_Sleep d st = emit (Slept d) st"

definition slept_nanoseconds :: "Duration \<Rightarrow> int" where
  "slept_nanoseconds d = max 0 (sint d)"

definition SearchWithFallback ::
  "world \<Rightarrow> search_request \<Rightarrow> bot_state \<Rightarrow> (error + Item list) \<times> bot_state" where
  "SearchWithFallback w req st =
     (case Search w (tick st) req of
        Inl err \<Rightarrow> (Inl (Errorf ''search failed'' (Some err)), emit (Searched req) (next_tick st))
      | Inr items \<Rightarrow> (Inr items, emit (Searched req) (next_tick st)))"

text \<open>
  The loop of \<open>searchWithRetry\<close>, from \<open>attempt\<close> on. In
  \<open>time.Duration(1<<uint(attempt-1))\<close> the constant 1 is a \<open>Duration\<close>, so the shift
  and the product with \<open>time.Second\<close> are 64-bit operations.
\<close>

function searchWithRetry_loop ::
  "world \<Rightarrow> Config \<Rightarrow> string \<Rightarrow> int \<Rightarrow> int \<Rightarrow> int \<Rightarrow> int \<Rightarrow> error option \<Rightarrow> bot_state
     \<Rightarrow> (error + Item list) \<times> bot_state" where
  "searchWithRetry_loop w cfg keyword' priceMin' priceMax' maxRetries attempt lastErr st =
     (if attempt \<le> maxRetries then
        let st1 =
              (if attempt > 0 then
                 let backoff = push_bit (nat (attempt - 1)) (1 :: Duration) * Second;
                     r = rand_Intn w 1000 st;
                     jitter = word_of_nat (fst r) * Millisecond
                 in time_Sleep (backoff + jitter) (snd r)
               else st);
            res = SearchWithFallback w
                    \<lparr>keyword = keyword', priceMin = priceMin', priceMax = priceMax',
                     categories = DefaultCategories cfg, limit = MaxDealsPerBrand cfg * 2\<rparr> st1
        in case fst res of
             Inr items \<Rightarrow> (Inr items, snd res)
           | Inl err \<Rightarrow>
               searchWithRetry_loop w cfg keyword' priceMin' priceMax' maxRetries
                 (attempt + 1) (Some err) (snd res)
      else (Inl (Errorf ''all retries failed'' lastErr), st))"
  by pat_completeness auto
termination
  by (relation "measure (\<lambda>(w, cfg, k, pmin, pmax, maxRetries, attempt, lastErr, st).
        nat (maxRetries + 1 - attempt))") auto

declare searchWithRetry_loop.simps [simp del]

definition searchWithRetry ::
  "world \<Rightarrow> Config \<Rightarrow> string \<Rightarrow> int \<Rightarrow> int \<Rightarrow> int \<Rightarrow> bot_state
     \<Rightarrow> (error + Item list) \<times> bot_state" where
  "searchWithRetry w cfg keyword' priceMin' priceMax' maxRetries st =
     searchWithRetry_loop w cfg keyword' priceMin' priceMax' maxRetries 0 None st"

text \<open>The age filter of \<open>scanBrand\<close>: one reading of \<open>AgeMinutes\<close> per listing.\<close>

fun age_filter :: "world \<Rightarrow> Config \<Rightarrow> Item list \<Rightarrow> bot_state \<Rightarrow> Item list \<times> bot_state" where
  "age_filter w cfg [] st = ([], st)"
| "age_filter w cfg (item # rest) st =
     (let age = AgeMinutes w (tick st) item;
          r = age_filter w cfg rest (next_tick st)
      in (if age \<le> of_int (MaxAgeMinutes cfg) then item # fst r else fst r, snd r))"

text \<open>The dedup filter of \<open>scanBrand\<close>: one \<open>HasSeen\<close> query per listing.\<close>

definition store_at :: "world \<Rightarrow> bot_state \<Rightarrow> DedupStore" where
  "store_at w st = (store st)\<lparr>db := (db (store st))\<lparr>unavailable := storage_down w (tick st)\<rparr>\<rparr>"

fun dedup_filter :: "world \<Rightarrow> Item list \<Rightarrow> bot_state \<Rightarrow> Item list \<times> bot_state" where
  "dedup_filter w [] st = ([], st)"
| "dedup_filter w (item # rest) st =
     (let seen = HasSeen (store_at w st) (ID item);
          r = dedup_filter w rest (next_tick st)
      in (if \<not> seen then item # fst r else fst r, snd r))"

definition firstImage :: "string list \<Rightarrow> string" where
  "firstImage urls = (if length urls > 0 then urls ! 0 else [])"

text \<open>
  The notification loop of \<open>scanBrand\<close>, with the running value of \<open>sent\<close>. When
  \<open>SendDeal\<close> returns an error the loop goes on to the next listing (\<open>continue\<close>).
\<close>

fun notify_loop :: "world \<Rightarrow> Brand \<Rightarrow> Item list \<Rightarrow> int \<Rightarrow> bot_state \<Rightarrow> int \<times> bot_state" where
  "notify_loop w brand' [] sent' st = (sent', st)"
| "notify_loop w brand' (item # rest) sent' st =
     (let deal = \<lparr>Deal_Name = Name item, Deal_Price = Price item,
                  Deal_BrandName = Brand_Name brand', ImageURL = firstImage (ImageURLs item),
                  Deal_ItemURL = ItemURL item, AgeMin = AgeMinutes w (tick st) item\<rparr>;
          st1 = next_tick st;
          err = SendDeal w (tick st1) deal;
          st2 = emit (Notified deal (err = None)) (next_tick st1)
      in if err \<noteq> None then notify_loop w brand' rest sent' st2
         else
           let marked = MarkSeen (store_at w st2) (ID item) (Brand_Name brand') (Name item)
                          (Price item) (Now w (tick st2));
               st3 = emit (Marked (ID item)) (next_tick (st2\<lparr>store := snd marked\<rparr>));
               st4 = time_Sleep (200 * Millisecond) st3
           in notify_loop w brand' rest (sent' + 1) st4)"

text \<open>
  The body of the keyword loop of \<open>scanBrand\<close>: the running counts and the state after
  one keyword. The slice expression \<open>unseen[:b.cfg.MaxDealsPerBrand]\<close> panics for a
  negative bound.
\<close>

definition scan_keyword ::
  "world \<Rightarrow> Config \<Rightarrow> AIFilter \<Rightarrow> Brand \<Rightarrow> int \<Rightarrow> int \<Rightarrow> string \<Rightarrow> counts \<Rightarrow> bot_state
     \<Rightarrow> (counts \<times> bot_state) outcome" where
  "scan_keyword w cfg f brand' pMin pMax keyword' c st =
     (let searched = searchWithRetry w cfg keyword' pMin pMax 3 st
      in case fst searched of
           Inl err \<Rightarrow> Returned (c, snd searched)
         | Inr items \<Rightarrow>
             let c1 = c\<lparr>found := found c + int (length items)\<rparr>;
                 aged = age_filter w cfg items (snd searched);
                 deduped = dedup_filter w (fst aged) (snd aged);
                 unseen = fst deduped;
                 c2 = c1\<lparr>fresh := fresh c1 + int (length (fst aged)),
                         newItems := newItems c1 + int (length unseen)\<rparr>;
                 st1 = snd deduped
             in if length unseen = 0 then Returned (c2, st1)
                else if int (length unseen) > MaxDealsPerBrand cfg \<and> MaxDealsPerBrand cfg < 0
                then Panicked
                else
                  let unseen = (if int (length unseen) > MaxDealsPerBrand cfg
                                then take (nat (MaxDealsPerBrand cfg)) unseen else unseen)
                  in case FilterItems f (clip w (tick st1)) (goroutines w (tick st1)) unseen of
                       None \<Rightarrow> Blocked
                     | Some kept' \<Rightarrow>
                         let c3 = c2\<lparr>kept := kept c2 + int (length kept')\<rparr>;
                             notified = notify_loop w brand' kept' (sent c3) (next_tick st1)
                         in Returned (c3\<lparr>sent := fst notified\<rparr>, snd notified))"

fun keyword_loop ::
  "world \<Rightarrow> Config \<Rightarrow> AIFilter \<Rightarrow> Brand \<Rightarrow> int \<Rightarrow> int \<Rightarrow> string list \<Rightarrow> counts \<Rightarrow> bot_state
     \<Rightarrow> (counts \<times> bot_state) outcome" where
  "keyword_loop w cfg f brand' pMin pMax [] c st = Returned (c, st)"
| "keyword_loop w cfg f brand' pMin pMax (keyword' # rest) c st =
     (case scan_keyword w cfg f brand' pMin pMax keyword' c st of
        Returned (c', st') \<Rightarrow> keyword_loop w cfg f brand' pMin pMax rest c' st'
      | Panicked \<Rightarrow> Panicked
      | Blocked \<Rightarrow> Blocked)"

definition scanBrand ::
  "world \<Rightarrow> Config \<Rightarrow> AIFilter \<Rightarrow> Brand \<Rightarrow> bot_state \<Rightarrow> (counts \<times> bot_state) outcome" where
  "scanBrand w cfg f brand' st =
     (let prices = GetPriceRange cfg brand'
      in keyword_loop w cfg f brand' (fst prices) (snd prices) (Keywords brand') no_counts st)"

text \<open>
  \<open>runScanCycle\<close>: the loop over the brands with the running totals, and the pause of
  500 to 1999 milliseconds after each brand. The summary message and the bookkeeping
  of the bot (\<open>lastScanTime\<close>, \<open>runCount\<close>) that follow the loop are left out.
\<close>

fun brand_loop ::
  "world \<Rightarrow> Config \<Rightarrow> AIFilter \<Rightarrow> Brand list \<Rightarrow> counts \<Rightarrow> bot_state
     \<Rightarrow> (counts \<times> bot_state) outcome" where
  "brand_loop w cfg f [] totals st = Returned (totals, st)"
| "brand_loop w cfg f (brand' # rest) totals st =
     (case scanBrand w cfg f brand' st of
        Returned (c, st') \<Rightarrow>
          let r = rand_Intn w 1500 st';
              jitter = word_of_nat (500 + fst r) * Millisecond
          in brand_loop w cfg f rest (add_counts totals c) (time_Sleep jitter (snd r))
      | Panicked \<Rightarrow> Panicked
      | Blocked \<Rightarrow> Blocked)"

definition runScanCycle ::
  "world \<Rightarrow> Config \<Rightarrow> AIFilter \<Rightarrow> bot_state \<Rightarrow> (counts \<times> bot_state) outcome" where
  "runScanCycle w cfg f st = brand_loop w cfg f (Brands cfg) no_counts st"

subsection \<open>Vocabulary for the properties of the scan\<close>

text \<open>The request \<open>searchWithRetry\<close> passes to the search client on every attempt.\<close>

definition search_request_of :: "Config \<Rightarrow> string \<Rightarrow> int \<Rightarrow> int \<Rightarrow> search_request" where
  "search_request_of cfg keyword' priceMin' priceMax' =
     \<lparr>keyword = keyword', priceMin = priceMin', priceMax = priceMax',
      categories = DefaultCategories cfg, limit = MaxDealsPerBrand cfg * 2\<rparr>"

text \<open>
  The argument of \<open>time.Sleep\<close> before retry attempt \<open>k\<close> when \<open>rand.Intn(1000)\<close> gives
  \<open>j\<close>, as the 64-bit arithmetic of the code computes it; and the number of nanoseconds
  that \<open>2^(k-1)\<close> seconds plus \<open>j\<close> milliseconds are.
\<close>

definition attempt_sleep :: "nat \<Rightarrow> nat \<Rightarrow> Duration" where
  "attempt_sleep k j = push_bit (k - 1) 1 * Second + word_of_nat j * Millisecond"

definition backoff_ns :: "nat \<Rightarrow> nat \<Rightarrow> int" where
  "backoff_ns k j = 2 ^ (k - 1) * 1000000000 + int j * 1000000"

text \<open>
  The events of attempt \<open>k\<close> of a \<open>searchWithRetry\<close> call that starts at tick \<open>t0\<close>:
  attempt 0 searches at once; a retry draws its jitter at tick \<open>t0 + 2k - 1\<close>, sleeps
  and searches at tick \<open>t0 + 2k\<close>. \<open>after_attempts\<close> is the state after the first
  \<open>n\<close> attempts.
\<close>

definition attempt_events :: "world \<Rightarrow> search_request \<Rightarrow> nat \<Rightarrow> nat \<Rightarrow> bot_event list" where
  "attempt_events w req t0 k =
     (if k = 0 then [Searched req]
      else [Slept (attempt_sleep k (random w (t0 + 2 * k - 1) mod 1000)), Searched req])"

definition attempts_trace :: "world \<Rightarrow> search_request \<Rightarrow> nat \<Rightarrow> nat \<Rightarrow> bot_event list" where
  "attempts_trace w req t0 n = concat (map (attempt_events w req t0) [0..<n])"

definition after_attempts :: "world \<Rightarrow> search_request \<Rightarrow> nat \<Rightarrow> bot_state \<Rightarrow> bot_state" where
  "after_attempts w req n st =
     st\<lparr>tick := tick st + (2 * n - 1), trace := trace st @ attempts_trace w req (tick st) n\<rparr>"

fun is_Searched :: "bot_event \<Rightarrow> bool" where
  "is_Searched (Searched req) = True"
| "is_Searched other = False"

definition searches :: "bot_state \<Rightarrow> nat" where
  "searches st = length (filter is_Searched (trace st))"

text \<open>The stage sizes are ordered.\<close>

definition monotone_counts :: "counts \<Rightarrow> bool" where
  "monotone_counts c =
     (found c \<ge> fresh c \<and> fresh c \<ge> newItems c \<and> newItems c \<ge> kept c \<and> kept c \<ge> sent c
      \<and> sent c \<ge> 0)"

subsection \<open>Example data for the scan\<close>

definition example_brand :: Brand where
  "example_brand =
     \<lparr>Brand_Name = ''Prada'', Keywords = [''prada''], Brand_PriceMin = 0, Brand_PriceMax = 0\<rparr>"

definition example_config :: Config where
  "example_config =
     \<lparr>Brands = [example_brand], PriceMin = 3000, PriceMax = 15000, MaxAgeMinutes = 180,
      MaxDealsPerBrand = 5, DefaultCategories = [1, 2]\<rparr>"

definition initial_state :: bot_state where
  "initial_state =
     \<lparr>tick = 0, store = \<lparr>db = \<lparr>seen_items = [], unavailable = False\<rparr>\<rparr>, trace = []\<rparr>"

text \<open>A filter without API key: disabled.\<close>

definition filter_off :: AIFilter where
  "filter_off = NewAIFilter [] ''openai/clip-vit-large-patch14'' True"

text \<open>A world whose search always times out.\<close>

definition failing_world :: world where
  "failing_world =
     \<lparr>Search = (\<lambda>t req. Inl (Error ''timeout'')), random = (\<lambda>t. 0),
      AgeMinutes = (\<lambda>t item. 10), Now = (\<lambda>t. 0), clip = (\<lambda>t i. always_loading),
      goroutines = (\<lambda>t i. i), SendDeal = (\<lambda>t deal. None), storage_down = (\<lambda>t. False)\<rparr>"

text \<open>
  A world where every search finds one ten minutes old listing without images and
  every notification fails; and the same world with notifications that succeed.
\<close>

definition send_failing_world :: world where
  "send_failing_world =
     \<lparr>Search = (\<lambda>t req. Inr [example_item_no_image]), random = (\<lambda>t. 0),
      AgeMinutes = (\<lambda>t item. 10), Now = (\<lambda>t. 0), clip = (\<lambda>t i. always_loading),
      goroutines = (\<lambda>t i. i),
      SendDeal = (\<lambda>t deal. Some (Error ''telegram request failed'')),
      storage_down = (\<lambda>t. False)\<rparr>"

definition sending_world :: world where
  "sending_world = send_failing_world\<lparr>SendDeal := (\<lambda>t deal. None)\<rparr>"

definition example_deal :: DealItem where
  "example_deal =
     \<lparr>Deal_Name = ''wallet'', Deal_Price = 7000, Deal_BrandName = ''Prada'', ImageURL = [],
      Deal_ItemURL = ''https://jp.mercari.com/item/m456'', AgeMin = 10\<rparr>"

text \<open>
  A world where every search finds three listings: one without images, one whose
  photo the service, after loading twice, sees as a receipt, and one listed 500
  minutes ago. Notifications succeed.
\<close>

definition old_item :: Item where
  "old_item =
     \<lparr>ID = ''m789'', Name = ''coat'', Price = 9000, Status = ''ITEM_STATUS_ON_SALE'',
      ImageURLs = [], Created = 1699970000, Updated = 1699970000, BrandName = ''Prada'',
      ItemURL = ''https://jp.mercari.com/item/m789''\<rparr>"

definition busy_world :: world where
  "busy_world =
     \<lparr>Search = (\<lambda>t req. Inr [example_item_no_image, example_item, old_item]),
      random = (\<lambda>t. 0),
      AgeMinutes = (\<lambda>t item. if ID item = ''m789'' then 500 else 10),
      Now = (\<lambda>t. 0), clip = (\<lambda>t i. loading_twice), goroutines = (\<lambda>t i. 2 - i),
      SendDeal = (\<lambda>t deal. None), storage_down = (\<lambda>t. False)\<rparr>"

section \<open>pkg/mercari/scanner.go: tolerant numbers\<close>

text \<open>
  A \<open>json.Number\<close> is the text of a number. \<open>jsonNumberToInt\<close> reads it with
  \<open>strconv.ParseInt(s, 10, 64)\<close> (\<open>Number.Int64\<close>), \<open>strconv.ParseFloat(s, 64)\<close>
  (\<open>Number.Float64\<close>) and \<open>strconv.Atoi\<close>. These library functions are modelled here
  for texts made of signs, digits, a point and an exponent; Go's further float syntax
  (digit-separating underscores, hexadecimal floats, the words \<open>inf\<close>, \<open>infinity\<close> and
  \<open>nan\<close>) is left out: the JSON decoder stores only JSON number literals
  (\<open>isValidNumber\<close>) in a \<open>json.Number\<close>. Go's \<open>int\<close> has 64 bits.
\<close>

datatype num_error = ErrSyntax | ErrRange

definition is_digit :: "char \<Rightarrow> bool" where
  "is_digit c = (48 \<le> (of_char c :: int) \<and> (of_char c :: int) \<le> 57)"

definition digit_of :: "char \<Rightarrow> int" where
  "digit_of c = of_char c - 48"

definition maxUint64 :: int where
  "maxUint64 = 18446744073709551615"

text \<open>
  The digit loop of \<open>strconv.ParseUint\<close> in base 10: a character that is not a digit
  is a syntax error; an overflow ends the loop at once with a range error, the
  characters after it unread.
\<close>

fun ParseUint_loop :: "int \<Rightarrow> string \<Rightarrow> int \<times> num_error option" where
  "ParseUint_loop n [] = (n, None)"
| "ParseUint_loop n (c # cs) =
     (if \<not> is_digit c then (0, Some ErrSyntax)
      else if n \<ge> maxUint64 div 10 + 1 then (maxUint64, Some ErrRange)
      else let n1 = n * 10 + digit_of c
           in if n1 > maxUint64 then (maxUint64, Some ErrRange) else ParseUint_loop n1 cs)"

definition ParseUint :: "string \<Rightarrow> int \<times> num_error option" where
  "ParseUint s = (if s = [] then (0, Some ErrSyntax) else ParseUint_loop 0 s)"

text \<open>
  \<open>strconv.ParseInt(s, 10, 64)\<close>: on a range error the value is the largest magnitude
  of the sign.
\<close>

definition ParseInt :: "string \<Rightarrow> int \<times> num_error option" where
  "ParseInt s =
     (if s = [] then (0, Some ErrSyntax)
      else
        let neg = (hd s = CHR ''-'');
            s1 = (if hd s = CHR ''+'' \<or> hd s = CHR ''-'' then tl s else s);
            parsed = ParseUint s1;
            un = fst parsed
        in if snd parsed = Some ErrSyntax then (0, Some ErrSyntax)
           else if \<not> neg \<and> un \<ge> 9223372036854775808
             then (9223372036854775807, Some ErrRange)
           else if neg \<and> un > 9223372036854775808
             then (- 9223372036854775808, Some ErrRange)
           else (if neg then - un else un, None))"

text \<open>
  \<open>strconv.Atoi\<close> with a 64-bit \<open>int\<close>: its fast path for short texts computes what
  \<open>ParseInt(s, 10, 0)\<close> computes, which is the slow path.
\<close>

definition Atoi :: "string \<Rightarrow> int \<times> num_error option" where
  "Atoi s = ParseInt s"

text \<open>
  The decimal syntax of \<open>strconv.ParseFloat\<close>: sign, digits with at most one point
  and at least one digit, and an optional exponent with at least one digit. The
  exponent is accumulated only while it is below 10000. The result is the sign and
  the magnitude the text denotes; \<open>None\<close> is a syntax error.
\<close>

fun exponent_loop :: "int \<Rightarrow> string \<Rightarrow> int" where
  "exponent_loop e [] = e"
| "exponent_loop e (c # cs) = exponent_loop (if e < 10000 then e * 10 + digit_of c else e) cs"

definition digits_value :: "string \<Rightarrow> int" where
  "digits_value ds = foldl (\<lambda>n c. n * 10 + digit_of c) 0 ds"

definition readFloat :: "string \<Rightarrow> (bool \<times> rat) option" where
  "readFloat s =
     (let neg = (s \<noteq> [] \<and> hd s = CHR ''-'');
          s1 = (if s \<noteq> [] \<and> (hd s = CHR ''+'' \<or> hd s = CHR ''-'') then tl s else s);
          ip = takeWhile is_digit s1;
          s2 = dropWhile is_digit s1;
          sawdot = (s2 \<noteq> [] \<and> hd s2 = CHR ''.'');
          fp = (if sawdot then takeWhile is_digit (tl s2) else []);
          s3 = (if sawdot then dropWhile is_digit (tl s2) else s2);
          m = of_int (digits_value (ip @ fp)) / 10 ^ length fp
      in if ip = [] \<and> fp = [] then None
         else if s3 = [] then Some (neg, m)
         else if hd s3 = CHR ''e'' \<or> hd s3 = CHR ''E'' then
           (let s4 = tl s3;
                eneg = (s4 \<noteq> [] \<and> hd s4 = CHR ''-'');
                s5 = (if s4 \<noteq> [] \<and> (hd s4 = CHR ''+'' \<or> hd s4 = CHR ''-'') then tl s4 else s4)
            in if s5 = [] \<or> \<not> list_all is_digit s5 then None
               else Some (neg, if eneg then m / 10 ^ nat (exponent_loop 0 s5)
                               else m * 10 ^ nat (exponent_loop 0 s5)))
         else None)"

text \<open>
  The \<open>float64\<close> nearest to a magnitude, ties to the even mantissa: the magnitude is
  scaled to an integer of at most 53 bits (fewer below \<open>2^-1022\<close>) and rounded. The
  result \<open>2^1024\<close> stands for an overflow.
\<close>

definition pow2 :: "int \<Rightarrow> rat" where
  "pow2 e = (if e \<ge> 0 then 2 ^ nat e else 1 / 2 ^ nat (- e))"

definition floor_log2 :: "rat \<Rightarrow> int" where
  "floor_log2 q =
     (let d = bitlen (fst (quotient_of q)) - bitlen (snd (quotient_of q))
      in if pow2 d \<le> q then d else d - 1)"

definition round_half_even :: "rat \<Rightarrow> int" where
  "round_half_even x =
     (let f = \<lfloor>x\<rfloor>; r = x - of_int f
      in if r < 1 / 2 then f else if r > 1 / 2 then f + 1 else if even f then f else f + 1)"

definition float64_nearest :: "rat \<Rightarrow> float64" where
  "float64_nearest q =
     (if q = 0 then 0
      else let e = max (floor_log2 q - 52) (- 1074)
           in of_int (round_half_even (q / pow2 e)) * pow2 e)"

text \<open>\<open>strconv.ParseFloat(s, 64)\<close>: a value too large for a \<open>float64\<close> is a range error.\<close>

definition ParseFloat :: "string \<Rightarrow> num_error + float64" where
  "ParseFloat s =
     (case readFloat s of
        None \<Rightarrow> Inl ErrSyntax
      | Some (neg, q) \<Rightarrow>
          let r = float64_nearest q
          in if r \<ge> 2 ^ 1024 then Inl ErrRange else Inr (if neg then - r else r))"

text \<open>
  The conversion \<open>int(f)\<close> drops the fraction. When the result does not fit the
  language leaves the value to the implementation: \<open>conv\<close> is what the platform gives.
\<close>

definition toward_zero :: "rat \<Rightarrow> int" where
  "toward_zero f = (if f \<ge> 0 then \<lfloor>f\<rfloor> else - \<lfloor>- f\<rfloor>)"

definition float64_to_int :: "(float64 \<Rightarrow> int) \<Rightarrow> float64 \<Rightarrow> int" where
  "float64_to_int conv f =
     (let t = toward_zero f
      in if - 9223372036854775808 \<le> t \<and> t \<le> 9223372036854775807 then t else conv f)"

definition jsonNumberToInt :: "(float64 \<Rightarrow> int) \<Rightarrow> string \<Rightarrow> int" where
  "jsonNumberToInt conv n =
     (if n = [] then 0
      else case ParseInt n of
             (v, None) \<Rightarrow> v
           | (v, Some err) \<Rightarrow>
               (case ParseFloat n of
                  Inr f \<Rightarrow> float64_to_int conv f
                | Inl err2 \<Rightarrow> fst (Atoi n)))"

text \<open>
  \<open>isValidNumber\<close> of \<open>encoding/json\<close>: the texts the decoder accepts for a
  \<open>json.Number\<close>, from a JSON number or from a JSON string.
\<close>

definition isValidNumber :: "string \<Rightarrow> bool" where
  "isValidNumber s =
     (let s1 = (if s \<noteq> [] \<and> hd s = CHR ''-'' then tl s else s)
      in if s1 = [] then False
         else if \<not> is_digit (hd s1) then False
         else
           let s2 = (if hd s1 = CHR ''0'' then tl s1 else dropWhile is_digit (tl s1));
               s3 = (if length s2 \<ge> 2 \<and> hd s2 = CHR ''.'' \<and> is_digit (s2 ! 1)
                     then dropWhile is_digit (drop 2 s2) else s2)
           in if length s3 \<ge> 2 \<and> (hd s3 = CHR ''e'' \<or> hd s3 = CHR ''E'') then
                (let s4 = tl s3;
                     s5 = (if hd s4 = CHR ''+'' \<or> hd s4 = CHR ''-'' then tl s4 else s4)
                 in if (hd s4 = CHR ''+'' \<or> hd s4 = CHR ''-'') \<and> s5 = [] then False
                    else dropWhile is_digit s5 = [])
              else s3 = [])"

text \<open>A number of 310 digits: 1 followed by 309 zeros.\<close>

definition huge_number :: string where
  "huge_number = CHR ''1'' # replicate 309 (CHR ''0'')"

section \<open>Facts about the store\<close>

lemma HasSeen_iff:
  "HasSeen s i = (\<not> unavailable (db s) \<and> i \<in> set (map id_key (seen_items (db s))))"
  by (auto simp: HasSeen_def select_count_where_id_def filter_empty_conv)

lemma MarkSeen_primary_key_ok:
  "primary_key_ok s \<Longrightarrow> primary_key_ok (snd (MarkSeen s i b n p t))"
  by (auto simp: primary_key_ok_def MarkSeen_def insert_or_ignore_def)

lemma records_for_distinct:
  "primary_key_ok s \<Longrightarrow> i \<in> set (map id_key (seen_items (db s))) \<Longrightarrow> records_for s i = 1"
proof -
  assume d: "primary_key_ok s" and m: "i \<in> set (map id_key (seen_items (db s)))"
  have "distinct (map id_key rs) \<Longrightarrow> i \<in> set (map id_key rs) \<Longrightarrow>
          length (filter (\<lambda>r. id_key r = i) rs) = 1" for rs :: "seen_item list"
    by (induction rs) (auto simp: filter_empty_conv image_iff)
  with d m show ?thesis
    by (simp add: primary_key_ok_def records_for_def)
qed

lemma MarkSeen_available_stores:
  "\<not> unavailable (db s) \<Longrightarrow>
     fst (MarkSeen s i b n p t) = None \<and>
     \<not> unavailable (db (snd (MarkSeen s i b n p t))) \<and>
     i \<in> set (map id_key (seen_items (db (snd (MarkSeen s i b n p t)))))"
  by (auto simp: MarkSeen_def insert_or_ignore_def)

lemma MarkSeen_present_noop:
  "\<not> unavailable (db s) \<Longrightarrow> i \<in> set (map id_key (seen_items (db s))) \<Longrightarrow>
     MarkSeen s i b n p t = (None, s)"
  by (auto simp: MarkSeen_def insert_or_ignore_def)

lemma MarkSeen_Count:
  "\<not> unavailable (db s) \<Longrightarrow>
     Count (snd (MarkSeen s i b n p t)) = Count s + (if HasSeen s i then 0 else 1)"
  by (auto simp: MarkSeen_def insert_or_ignore_def Count_def select_count_def HasSeen_iff)

text \<open>
  Claim C4, as stated: the result of \<open>HasSeen\<close> lets the caller tell a failed lookup
  from an id that is not present. On the code it does not: a store whose storage is
  down and a healthy empty store answer the same \<open>false\<close>.
\<close>

theorem HasSeen_failure_same_as_absent:
  "HasSeen \<lparr>db = \<lparr>seen_items = [], unavailable = True\<rparr>\<rparr> ''m123''
     = HasSeen \<lparr>db = \<lparr>seen_items = [], unavailable = False\<rparr>\<rparr> ''m123''
   \<and> select_count_where_id \<lparr>seen_items = [], unavailable = True\<rparr> ''m123'' = Inl (Error ''sql'')
   \<and> select_count_where_id \<lparr>seen_items = [], unavailable = False\<rparr> ''m123'' = Inr 0"
  by (simp add: HasSeen_def select_count_where_id_def)

text \<open>
  Claim C4, amended: \<open>HasSeen\<close> returns a bare boolean and never fails; it answers
  \<open>true\<close> exactly when the query succeeds and finds the id, so a failed lookup is
  answered \<open>false\<close>, the same answer as for an id that is not present: the store
  itself applies the treat-as-unseen default.
\<close>

theorem HasSeen_false_on_read_failure:
  "HasSeen s itemID =
     (case select_count_where_id (db s) itemID of Inl err \<Rightarrow> False | Inr c \<Rightarrow> c > 0)
   \<and> HasSeen s itemID = (\<not> unavailable (db s) \<and> itemID \<in> set (map id_key (seen_items (db s))))
   \<and> HasSeen (s\<lparr>db := (db s)\<lparr>unavailable := True\<rparr>\<rparr>) itemID = False"
proof (intro conjI)
  show "HasSeen s itemID =
     (case select_count_where_id (db s) itemID of Inl err \<Rightarrow> False | Inr c \<Rightarrow> c > 0)"
    by (simp add: HasSeen_def)
  show "HasSeen s itemID = (\<not> unavailable (db s) \<and> itemID \<in> set (map id_key (seen_items (db s))))"
    by (rule HasSeen_iff)
  show "HasSeen (s\<lparr>db := (db s)\<lparr>unavailable := True\<rparr>\<rparr>) itemID = False"
    by (simp add: HasSeen_iff)
qed

text \<open>
  Claim C5, as stated: for any id, after two calls of \<open>MarkSeen\<close> the count is one more
  than before the first call. On the code that fails for an id that is already stored:
  both calls are no-ops and the count stays where it was.
\<close>

theorem MarkSeen_twice_stored_id_count_unchanged:
  "Count \<lparr>db = \<lparr>seen_items =
        [\<lparr>id_key = ''m123'', brand = ''Gucci'', name = ''bag'', price = 5000, seen_at = 7\<rparr>],
        unavailable = False\<rparr>\<rparr> = 1
   \<and> Count (snd (MarkSeen (snd (MarkSeen
        \<lparr>db = \<lparr>seen_items =
          [\<lparr>id_key = ''m123'', brand = ''Gucci'', name = ''bag'', price = 5000, seen_at = 7\<rparr>],
          unavailable = False\<rparr>\<rparr>
        ''m123'' ''Gucci'' ''bag'' 5000 8)) ''m123'' ''Gucci'' ''bag'' 5000 9)) = 1"
  by (simp add: Count_def select_count_def MarkSeen_def insert_or_ignore_def)

text \<open>
  Claim C5, amended: on a store whose storage executes the statements and whose table
  respects its primary key, calling \<open>MarkSeen\<close> twice for an id (with any brand, name,
  price) returns no error either time, the second call changes nothing, exactly one
  record for the id is stored afterwards, and \<open>Count\<close> is one more than before the
  first call when the id was not stored before, and unchanged when it was.
\<close>

theorem MarkSeen_idempotent:
  assumes "\<not> unavailable (db s)" and "primary_key_ok s"
  shows "fst (MarkSeen s i b1 n1 p1 t1) = None
    \<and> MarkSeen (snd (MarkSeen s i b1 n1 p1 t1)) i b2 n2 p2 t2
        = (None, snd (MarkSeen s i b1 n1 p1 t1))
    \<and> records_for (snd (MarkSeen (snd (MarkSeen s i b1 n1 p1 t1)) i b2 n2 p2 t2)) i = 1
    \<and> Count (snd (MarkSeen (snd (MarkSeen s i b1 n1 p1 t1)) i b2 n2 p2 t2))
        = Count s + (if HasSeen s i then 0 else 1)"
proof -
  let ?s1 = "snd (MarkSeen s i b1 n1 p1 t1)"
  from assms(1) have first: "fst (MarkSeen s i b1 n1 p1 t1) = None"
    and avail: "\<not> unavailable (db ?s1)"
    and stored: "i \<in> set (map id_key (seen_items (db ?s1)))"
    using MarkSeen_available_stores [of s i b1 n1 p1 t1] by simp_all
  from avail stored have second: "MarkSeen ?s1 i b2 n2 p2 t2 = (None, ?s1)"
    by (rule MarkSeen_present_noop)
  from assms(2) have "primary_key_ok ?s1"
    by (rule MarkSeen_primary_key_ok)
  with stored have one: "records_for ?s1 i = 1"
    by (simp add: records_for_distinct)
  from assms(1) have "Count ?s1 = Count s + (if HasSeen s i then 0 else 1)"
    by (rule MarkSeen_Count)
  with first second one show ?thesis
    by simp
qed

theorem MarkSeen_idempotent_witness:
  "\<not> unavailable (db \<lparr>db = \<lparr>seen_items = [], unavailable = False\<rparr>\<rparr>)
   \<and> primary_key_ok \<lparr>db = \<lparr>seen_items = [], unavailable = False\<rparr>\<rparr>
   \<and> records_for (snd (MarkSeen (snd (MarkSeen \<lparr>db = \<lparr>seen_items = [], unavailable = False\<rparr>\<rparr>
        ''m123'' ''Gucci'' ''bag'' 5000 8)) ''m123'' ''Prada'' ''wallet'' 7000 9)) ''m123'' = 1
   \<and> Count (snd (MarkSeen (snd (MarkSeen \<lparr>db = \<lparr>seen_items = [], unavailable = False\<rparr>\<rparr>
        ''m123'' ''Gucci'' ''bag'' 5000 8)) ''m123'' ''Prada'' ''wallet'' 7000 9)) = 1"
  using MarkSeen_idempotent [of "\<lparr>db = \<lparr>seen_items = [], unavailable = False\<rparr>\<rparr>"
      "''m123''" "''Gucci''" "''bag''" 5000 8 "''Prada''" "''wallet''" 7000 9]
  by (simp add: primary_key_ok_def Count_def select_count_def HasSeen_iff MarkSeen_def
      insert_or_ignore_def records_for_def)

section \<open>Properties of the image filter\<close>

subsection \<open>The threshold\<close>

lemma trash_loop_iff:
  "trash_loop ts l s \<longleftrightarrow> l \<in> set ts \<and> float64_0_3 < s"
  by (induction ts) auto

text \<open>
  A \<open>float64\<close> strictly between a quarter and a half is a multiple of \<open>2^-54\<close>.
\<close>

lemma float64_multiple_of_ulp:
  assumes "is_float64 s" and "1 / 4 < s"
  shows "\<exists>N::int. s * 2 ^ 54 = of_int N"
proof -
  from assms(1) obtain m :: int where m: "\<bar>m\<bar> < 2 ^ 53"
    and shape: "(\<exists>k::nat. k \<le> 971 \<and> s = of_int m * 2 ^ k) \<or>
       (\<exists>k::nat. k \<le> 1074 \<and> s = of_int m / 2 ^ k)"
    by (auto simp: is_float64_def)
  from shape show ?thesis
  proof (elim disjE exE conjE)
    fix k :: nat
    assume "s = of_int m * 2 ^ k"
    then have "s * 2 ^ 54 = of_int (m * 2 ^ k * 2 ^ 54)" by simp
    then show ?thesis ..
  next
    fix k :: nat
    assume s: "s = of_int m / 2 ^ k"
    with assms(2) have "(2::rat) ^ k < 4 * of_int m"
      by (simp add: pos_less_divide_eq)
    then have "(of_int (2 ^ k) :: rat) < of_int (4 * m)" by simp
    then have "(2::int) ^ k < 4 * m" by (simp only: of_int_less_iff)
    with m have "(2::int) ^ k < 2 ^ 55" by simp
    then have "k < 55" by (simp only: power_strict_increasing_iff)
    then have "(2::rat) ^ 54 = 2 ^ k * 2 ^ (54 - k)"
      by (simp flip: power_add)
    then have "s * 2 ^ 54 = of_int m / 2 ^ k * (2 ^ k * 2 ^ (54 - k))"
      by (simp only: s)
    also have "\<dots> = of_int (m * 2 ^ (54 - k))"
      by simp
    finally have "s * 2 ^ 54 = of_int (m * 2 ^ (54 - k))" .
    then show ?thesis ..
  qed
qed

text \<open>
  On \<open>float64\<close> values, exceeding the constant of the code is exceeding three tenths:
  no \<open>float64\<close> lies between the two.
\<close>

lemma float64_0_3_gap:
  assumes "is_float64 s"
  shows "float64_0_3 < s \<longleftrightarrow> 3 / 10 < s"
proof
  assume "3 / 10 < s"
  then show "float64_0_3 < s" by (simp add: float64_0_3_def)
next
  assume lo: "float64_0_3 < s"
  show "3 / 10 < s"
  proof (rule ccontr)
    assume "\<not> 3 / 10 < s"
    then have hi: "s \<le> 3 / 10" by simp
    from lo have "1 / 4 < s" by (simp add: float64_0_3_def)
    with assms obtain N :: int where N: "s * 2 ^ 54 = of_int N"
      using float64_multiple_of_ulp by blast
    from lo have "5404319552844595 < s * 2 ^ 54"
      by (simp add: float64_0_3_def)
    with N have "(5404319552844595::rat) < of_int N" by simp
    then have 1: "5404319552844595 < N" by linarith
    from hi have "s * 2 ^ 54 \<le> 3 / 10 * 2 ^ 54" by simp
    with N have "(of_int N :: rat) \<le> 3 / 10 * 2 ^ 54" by simp
    then have "(of_int N :: rat) < 5404319552844596" by simp
    then have 2: "N < 5404319552844596" by linarith
    from 1 2 show False by simp
  qed
qed

lemma is_float64_0_3: "is_float64 float64_0_3"
  unfolding is_float64_def float64_0_3_def
  by (rule exI [of _ 5404319552844595], simp, rule disjI2, rule exI [of _ 54], simp)

lemma is_float64_three_quarters: "is_float64 (3 / 4)"
  unfolding is_float64_def
  by (rule exI [of _ 3], simp, rule disjI2, rule exI [of _ 2], simp)

lemma is_float64_one_quarter: "is_float64 (1 / 4)"
  unfolding is_float64_def
  by (rule exI [of _ 1], simp, rule disjI2, rule exI [of _ 2], simp)

subsection \<open>\<open>classifyItem\<close>: retries and answers\<close>

lemma posts_append [simp]: "posts (tr @ tr') = posts tr + posts tr'"
  by (simp add: posts_def)

lemma posts_simps [simp]:
  "posts [] = 0" "posts (Post r # tr) = Suc (posts tr)" "posts (Sleep n # tr) = posts tr"
  by (simp_all add: posts_def)

lemma posts_retries [simp]: "posts (retries k req) = k"
  by (induction k) (simp_all add: retries_def)

lemma retries_Suc: "retries (Suc k) req = [Post req, Sleep 20] @ retries k req"
  by (simp add: retries_def)

lemma classifyItem_no_image:
  "ImageURLs item = [] \<Longrightarrow> classifyItem f srv item tr = Some ((True, ''no_image'', 0), tr)"
  by (subst classifyItem.simps) simp

lemma classifyItem_loading:
  "ImageURLs item \<noteq> [] \<Longrightarrow> loading (srv (posts tr) (clip_request f item)) \<Longrightarrow>
   classifyItem f srv item tr =
     classifyItem f srv item (tr @ [Post (clip_request f item), Sleep 20])"
  by (subst classifyItem.simps)
     (auto simp: clip_request_def loading_def Let_def split: http_result.splits)

lemma classifyItem_answered:
  "ImageURLs item \<noteq> [] \<Longrightarrow> \<not> loading (srv (posts tr) (clip_request f item)) \<Longrightarrow>
   classifyItem f srv item tr =
     Some (final_verdict f (srv (posts tr) (clip_request f item)),
           tr @ final_events (srv (posts tr) (clip_request f item)) (clip_request f item))"
  by (subst classifyItem.simps)
     (auto simp: clip_request_def loading_def Let_def final_verdict_def final_events_def
        split: http_result.splits)

lemma classifyItem_retries:
  "ImageURLs item \<noteq> [] \<Longrightarrow>
   (\<forall>j<k. loading (srv (posts tr + j) (clip_request f item))) \<Longrightarrow>
   classifyItem f srv item tr = classifyItem f srv item (tr @ retries k (clip_request f item))"
proof (induction k arbitrary: tr)
  case 0
  then show ?case by (simp add: retries_def)
next
  case (Suc k)
  let ?req = "clip_request f item"
  from Suc.prems have "loading (srv (posts tr) ?req)"
    by (metis add.right_neutral zero_less_Suc)
  with Suc.prems(1) have "classifyItem f srv item tr
      = classifyItem f srv item (tr @ [Post ?req, Sleep 20])"
    by (rule classifyItem_loading)
  also have "\<dots> = classifyItem f srv item ((tr @ [Post ?req, Sleep 20]) @ retries k ?req)"
  proof (rule Suc.IH [OF Suc.prems(1)])
    show "\<forall>j<k. loading (srv (posts (tr @ [Post ?req, Sleep 20]) + j) ?req)"
      using Suc.prems(2) by (auto simp: less_Suc_eq_0_disj)
  qed
  finally show ?case
    by (simp add: retries_Suc)
qed

text \<open>
  The result of \<open>classifyItem\<close> is decided by the first reply that is not 503: after
  \<open>k\<close> loading replies the function has sent \<open>k\<close> requests and slept \<open>k\<close> times.
\<close>

lemma classifyItem_first_answer:
  assumes "ImageURLs item \<noteq> []"
    and "\<forall>j<k. loading (srv j (clip_request f item))"
    and "\<not> loading (srv k (clip_request f item))"
  shows "classifyItem f srv item [] =
     Some (final_verdict f (srv k (clip_request f item)),
           retries k (clip_request f item)
             @ final_events (srv k (clip_request f item)) (clip_request f item))"
proof -
  let ?req = "clip_request f item"
  from assms(1,2) have "classifyItem f srv item [] = classifyItem f srv item ([] @ retries k ?req)"
    by (intro classifyItem_retries) simp_all
  also from assms(1,3) have "\<dots> = Some (final_verdict f (srv k ?req),
      retries k ?req @ final_events (srv k ?req) ?req)"
    using classifyItem_answered [of item srv "retries k ?req" f] by simp
  finally show ?thesis .
qed

lemma classifyItem_returns:
  assumes "ImageURLs item \<noteq> []" and "eventually_answers srv (clip_request f item)"
  shows "\<exists>y. classifyItem f srv item [] = Some y"
proof -
  let ?req = "clip_request f item"
  define k where "k = (LEAST n. \<not> loading (srv n ?req))"
  from assms(2) have "\<not> loading (srv k ?req)"
    unfolding k_def eventually_answers_def by (rule LeastI_ex)
  moreover have "\<forall>j<k. loading (srv j ?req)"
    unfolding k_def using not_less_Least by blast
  ultimately show ?thesis
    using classifyItem_first_answer [OF assms(1)] by blast
qed

text \<open>Conversely, \<open>classifyItem\<close> returns only when some reply is not 503.\<close>

lemma classifyItem_Some_answered:
  "classifyItem f srv item tr = Some y \<Longrightarrow>
   ImageURLs item = [] \<or> (\<exists>n. \<not> loading (srv n (clip_request f item)))"
proof (erule classifyItem.raw_induct [rotated], goal_cases)
  case (1 self f srv item tr y)
  show ?case
  proof (cases "ImageURLs item = []")
    case True
    then show ?thesis by simp
  next
    case False
    show ?thesis
    proof (cases "loading (srv (posts tr) (clip_request f item))")
      case True
      with \<open>ImageURLs item \<noteq> []\<close> 1(2)
      have "self f srv item (tr @ [Post (clip_request f item), Sleep 20]) = Some y"
        by (auto simp: clip_request_def loading_def Let_def split: http_result.splits if_splits)
      then show ?thesis using 1(1) by blast
    next
      case False
      then show ?thesis by blast
    qed
  qed
qed

lemma classifyItem_never_returns:
  "ImageURLs item \<noteq> [] \<Longrightarrow> \<forall>n. loading (srv n (clip_request f item)) \<Longrightarrow>
   classifyItem f srv item tr = None"
  using classifyItem_Some_answered [of f srv item tr]
  by (cases "classifyItem f srv item tr") auto

subsection \<open>\<open>FilterItems\<close>: the slots and the order of the writes\<close>

lemma write_slots_Some:
  "\<forall>i\<in>set order. slot i \<noteq> None \<Longrightarrow>
   write_slots slot order rs = Some (fold (\<lambda>i rs. rs[i := the (slot i)]) order rs)"
  by (induction order arbitrary: rs) auto

lemma write_slots_None:
  "i \<in> set order \<Longrightarrow> slot i = None \<Longrightarrow> write_slots slot order rs = None"
  by (induction order arbitrary: rs) (auto split: option.splits)

lemma length_fold_update [simp]:
  "length (fold (\<lambda>i rs. rs[i := v i]) order rs) = length rs"
  by (induction order arbitrary: rs) simp_all

lemma nth_fold_update:
  "j < length rs \<Longrightarrow>
   fold (\<lambda>i rs. rs[i := v i]) order rs ! j = (if j \<in> set order then v j else rs ! j)"
  by (induction order arbitrary: rs) (auto simp: nth_list_update)

text \<open>Whatever the order of the writes, every slot ends with the result of its index.\<close>

lemma fold_update_all:
  "set order = {0..<n} \<Longrightarrow> length rs = n \<Longrightarrow>
   fold (\<lambda>i rs. rs[i := v i]) order rs = map v [0..<n]"
  by (rule nth_equalityI) (simp_all add: nth_fold_update)

lemma collect_kept_map:
  "collect_kept items (map v [0..<length items])
     = map (\<lambda>i. items ! i) (filter (\<lambda>i. keep (v i)) [0..<length items])"
  unfolding collect_kept_def
  by (rule arg_cong [where f = "map (\<lambda>i. items ! i)"]) (auto intro: filter_cong)

lemma FilterItems_disabled: "\<not> enabled f \<Longrightarrow> FilterItems f env finish items = Some items"
  by (simp add: FilterItems_def)

lemma FilterItems_enabled:
  assumes "enabled f" and "\<forall>i<length items. slot_result f env items i \<noteq> None"
  shows "FilterItems f env finish items =
     Some (map (\<lambda>i. items ! i)
        (filter (\<lambda>i. keep (the (slot_result f env items i))) [0..<length items]))"
proof (cases "items = []")
  case True
  then show ?thesis by (simp add: FilterItems_def)
next
  case False
  let ?order = "sort_key finish [0..<length items]"
  have order: "set ?order = {0..<length items}" by simp
  with assms(2) have "write_slots (slot_result f env items) ?order
        (replicate (length items) zero_result)
      = Some (fold (\<lambda>i rs. rs[i := the (slot_result f env items i)]) ?order
          (replicate (length items) zero_result))"
    by (intro write_slots_Some) simp
  also have "fold (\<lambda>i rs. rs[i := the (slot_result f env items i)]) ?order
        (replicate (length items) zero_result)
      = map (\<lambda>i. the (slot_result f env items i)) [0..<length items]"
    using order by (rule fold_update_all) simp
  finally show ?thesis
    using assms(1) False by (simp add: FilterItems_def collect_kept_map)
qed

text \<open>One classification that never returns keeps \<open>FilterItems\<close> from returning.\<close>

lemma FilterItems_blocked:
  assumes "enabled f" and "i < length items" and "slot_result f env items i = None"
  shows "FilterItems f env finish items = None"
proof -
  from assms(2) have "i \<in> set (sort_key finish [0..<length items])" by simp
  then have "write_slots (slot_result f env items) (sort_key finish [0..<length items])
      (replicate (length items) zero_result) = None"
    using assms(3) by (rule write_slots_None)
  with assms(1,2) show ?thesis
    by (auto simp: FilterItems_def)
qed

lemma subseq_collect: "subseq (map (\<lambda>i. xs ! i) (filter P [0..<length xs])) xs"
  by (metis map_nth subseq_filter_left subseq_map)

lemma slot_result_returns:
  "ImageURLs (items ! i) = [] \<or> eventually_answers (env i) (clip_request f (items ! i)) \<Longrightarrow>
   slot_result f env items i \<noteq> None"
proof (cases "ImageURLs (items ! i) = []")
  case True
  then show ?thesis by (simp add: slot_result_def)
next
  case False
  assume "ImageURLs (items ! i) = [] \<or> eventually_answers (env i) (clip_request f (items ! i))"
  with False have "eventually_answers (env i) (clip_request f (items ! i))" by simp
  with False obtain y where "classifyItem f (env i) (items ! i) [] = Some y"
    using classifyItem_returns by blast
  with False show ?thesis
    by (simp add: slot_result_def split: prod.splits)
qed

lemma slot_result_keep:
  "ImageURLs (items ! i) \<noteq> [] \<Longrightarrow>
   classifyItem f (env i) (items ! i) [] = Some ((kp, lbl, sc), tr) \<Longrightarrow>
   slot_result f env items i = Some \<lparr>index = i, keep = kp, label = lbl, score = sc\<rparr>"
  by (simp add: slot_result_def)

lemma kept_in_output:
  assumes "enabled f \<longrightarrow> (\<forall>j<length items. slot_result f env items j \<noteq> None)"
    and "i < length items"
    and "enabled f \<longrightarrow> keep (the (slot_result f env items i))"
  shows "\<exists>ys. FilterItems f env finish items = Some ys \<and> items ! i \<in> set ys"
proof (cases "enabled f")
  case False
  with assms(2) show ?thesis
    by (simp add: FilterItems_disabled)
next
  case True
  with assms(1) have "FilterItems f env finish items =
     Some (map (\<lambda>i. items ! i)
        (filter (\<lambda>i. keep (the (slot_result f env items i))) [0..<length items]))"
    by (simp add: FilterItems_enabled)
  moreover from True assms(2,3) have "items ! i \<in> set (map (\<lambda>i. items ! i)
        (filter (\<lambda>i. keep (the (slot_result f env items i))) [0..<length items]))"
    by auto
  ultimately show ?thesis by simp
qed

subsection \<open>The claims about the filter\<close>

lemma classifier_failure_verdict:
  "classifier_failure r \<Longrightarrow>
   \<not> loading r \<and> (\<exists>lbl\<in>set diagnostic_labels. final_verdict f r = (True, lbl, 0))"
  by (cases r rule: classifier_failure.cases)
     (auto simp: loading_def final_verdict_def parse_verdict_def top_verdict_def
        unmarshal_clipResponse_def unmarshal_clipResponses_def diagnostic_labels_def)

lemma parse_verdict_encodings:
  "parse_verdict f (Object r) = top_verdict f r"
  "parse_verdict f (Array (r # rs)) = top_verdict f r"
  by (simp_all add: parse_verdict_def unmarshal_clipResponse_def unmarshal_clipResponses_def)

text \<open>
  Claim C2: the classification gate is fail-open. For a listing with at least one image
  whose classification ends, after any number of model-loading replies, in a request
  that cannot be built or sent, a response that cannot be read, a status that is
  neither 200 nor 503, a body that decodes neither as an object nor as a non-empty
  array, or a result without labels or scores, \<open>classifyItem\<close> returns "keep" with one
  of the diagnostic labels and score 0, and the listing is in the output of
  \<open>FilterItems\<close> (which returns, as long as the classification of every listing of the
  batch is answered). A single object and a one-element array holding it are both
  accepted and read alike.
\<close>

theorem classifier_fail_open:
  assumes "i < length items" and "ImageURLs (items ! i) \<noteq> []"
    and "\<forall>j<length items. ImageURLs (items ! j) = []
            \<or> eventually_answers (env j) (clip_request f (items ! j))"
    and "\<forall>n<k. loading (env i n (clip_request f (items ! i)))"
    and "classifier_failure (env i k (clip_request f (items ! i)))"
  shows "(\<exists>lbl tr. classifyItem f (env i) (items ! i) [] = Some ((True, lbl, 0), tr)
            \<and> lbl \<in> set diagnostic_labels)
    \<and> (\<exists>ys. FilterItems f env finish items = Some ys \<and> items ! i \<in> set ys)
    \<and> parse_verdict f (Array [r]) = parse_verdict f (Object r)"
proof -
  let ?req = "clip_request f (items ! i)"
  from assms(5) obtain lbl where lbl: "lbl \<in> set diagnostic_labels"
    and verdict: "final_verdict f (env i k ?req) = (True, lbl, 0)"
    and answered: "\<not> loading (env i k ?req)"
    using classifier_failure_verdict [of "env i k ?req" f] by blast
  from assms(2,4) answered have run: "classifyItem f (env i) (items ! i) [] =
      Some ((True, lbl, 0), retries k ?req @ final_events (env i k ?req) ?req)"
    using classifyItem_first_answer [of "items ! i" k "env i" f] by (simp add: verdict)
  with assms(2) have "slot_result f env items i
      = Some \<lparr>index = i, keep = True, label = lbl, score = 0\<rparr>"
    by (rule slot_result_keep)
  then have kept: "keep (the (slot_result f env items i))" by simp
  from assms(3) have "\<forall>j<length items. slot_result f env items j \<noteq> None"
    by (simp add: slot_result_returns)
  with assms(1) kept have "\<exists>ys. FilterItems f env finish items = Some ys \<and> items ! i \<in> set ys"
    by (intro kept_in_output) simp_all
  with run lbl show ?thesis
    by (simp add: parse_verdict_encodings)
qed

theorem classifier_fail_open_witness:
  "(\<exists>lbl tr. classifyItem example_filter (\<lambda>n req. Reply 500 Undecodable) example_item []
        = Some ((True, lbl, 0), tr) \<and> lbl \<in> set diagnostic_labels)
   \<and> (\<exists>ys. FilterItems example_filter (\<lambda>i n req. Reply 500 Undecodable) (\<lambda>i. i)
        [example_item] = Some ys \<and> example_item \<in> set ys)"
  using classifier_fail_open [of 0 "[example_item]" "\<lambda>i n req. Reply 500 Undecodable"
      example_filter 0 "\<lambda>i. i" undefined]
  by (simp add: example_item_def eventually_answers_def loading_def)

text \<open>
  Claim C3, at a failing input: a listing with one image and a service that answers
  503 to the first two requests and then, with status 200, a receipt with score 0.75.
  \<open>classifyItem\<close> sends three requests, sleeps 20 seconds twice, and rejects the
  listing: the second 503 is retried again instead of keeping the listing. With a
  service that answers 503 forever, \<open>classifyItem\<close> never returns.
\<close>

theorem classifyItem_retries_without_bound:
  "classifyItem example_filter loading_twice example_item [] =
     Some ((False, ''a receipt'', 3 / 4),
       [Post (clip_request example_filter example_item), Sleep 20,
        Post (clip_request example_filter example_item), Sleep 20,
        Post (clip_request example_filter example_item)])
   \<and> classifyItem example_filter always_loading example_item [] = None"
proof
  have "classifyItem example_filter loading_twice example_item [] =
     Some (final_verdict example_filter
             (loading_twice 2 (clip_request example_filter example_item)),
           retries 2 (clip_request example_filter example_item)
             @ final_events (loading_twice 2 (clip_request example_filter example_item))
                 (clip_request example_filter example_item))"
    by (rule classifyItem_first_answer)
       (simp_all add: example_item_def loading_twice_def loading_def)
  then show "classifyItem example_filter loading_twice example_item [] =
     Some ((False, ''a receipt'', 3 / 4),
       [Post (clip_request example_filter example_item), Sleep 20,
        Post (clip_request example_filter example_item), Sleep 20,
        Post (clip_request example_filter example_item)])"
    by (simp add: loading_twice_def final_verdict_def final_events_def parse_verdict_def
        unmarshal_clipResponse_def top_verdict_def receipt_response_def example_filter_def
        NewAIFilter_def float64_0_3_def retries_def numeral_2_eq_2)
  show "classifyItem example_filter always_loading example_item [] = None"
    by (rule classifyItem_never_returns)
       (simp_all add: example_item_def always_loading_def loading_def)
qed

lemma final_verdict_reject_iff:
  "\<not> fst (final_verdict f r) \<longleftrightarrow>
     (\<exists>resp. decoded r = Some resp \<and> Labels resp \<noteq> [] \<and> Scores resp \<noteq> []
        \<and> Labels resp ! 0 \<in> set (trashLabels f) \<and> float64_0_3 < Scores resp ! 0)"
  by (cases r rule: decoded.cases)
     (auto simp: final_verdict_def parse_verdict_def top_verdict_def trash_loop_iff Let_def
        unmarshal_clipResponse_def unmarshal_clipResponses_def
        split: body.splits list.splits)

text \<open>The decision of \<open>classifyItem\<close> for any filter, with the constant of the code.\<close>

lemma classifyItem_reject_iff:
  assumes "ImageURLs item \<noteq> []"
    and "\<forall>n<k. loading (srv n (clip_request f item))"
    and "\<not> loading (srv k (clip_request f item))"
  shows "\<exists>kp lbl sc tr. classifyItem f srv item [] = Some ((kp, lbl, sc), tr) \<and>
     (\<not> kp \<longleftrightarrow>
        (\<exists>resp. decoded (srv k (clip_request f item)) = Some resp
           \<and> Labels resp \<noteq> [] \<and> Scores resp \<noteq> []
           \<and> Labels resp ! 0 \<in> set (trashLabels f) \<and> float64_0_3 < Scores resp ! 0))"
proof -
  let ?r = "srv k (clip_request f item)"
  obtain kp lbl sc where v: "final_verdict f ?r = (kp, lbl, sc)"
    by (cases "final_verdict f ?r") auto
  from assms have "classifyItem f srv item [] = Some ((kp, lbl, sc),
      retries k (clip_request f item) @ final_events ?r (clip_request f item))"
    using classifyItem_first_answer [of item k srv f] by (simp add: v)
  moreover from v have "\<not> kp \<longleftrightarrow> \<not> fst (final_verdict f ?r)" by simp
  ultimately show ?thesis
    unfolding final_verdict_reject_iff by blast
qed

lemma NewAIFilter_keep_not_trash:
  "l \<in> set (keepLabels (NewAIFilter a m e)) \<Longrightarrow> l \<notin> set (trashLabels (NewAIFilter a m e))"
  by (auto simp: NewAIFilter_def)

lemma no_image_kept:
  assumes "i < length items" and "ImageURLs (items ! i) = []"
    and "FilterItems f env finish items = Some ys"
  shows "items ! i \<in> set ys"
proof (cases "enabled f")
  case False
  with assms(1,3) show ?thesis
    by (auto simp: FilterItems_disabled)
next
  case True
  have all: "\<forall>j<length items. slot_result f env items j \<noteq> None"
  proof (intro allI impI)
    fix j assume "j < length items"
    show "slot_result f env items j \<noteq> None"
    proof
      assume "slot_result f env items j = None"
      with True \<open>j < length items\<close> have "FilterItems f env finish items = None"
        by (rule FilterItems_blocked)
      with assms(3) show False by simp
    qed
  qed
  from assms(2) have "keep (the (slot_result f env items i))"
    by (simp add: slot_result_def)
  with all assms(1) obtain zs where "FilterItems f env finish items = Some zs"
    and "items ! i \<in> set zs"
    using kept_in_output [of f items env i finish] by auto
  with assms(3) show ?thesis by simp
qed

text \<open>
  The slot of a listing with an image whose classification is answered after \<open>k\<close>
  model-loading replies: it is written, and it says "keep" unless the answer carries a
  result whose top label is in the reject set with a top score over 0.3.
\<close>

lemma slot_result_decision:
  assumes "ImageURLs (items ! i) \<noteq> []"
    and "\<forall>n<k. loading (env i n (clip_request f (items ! i)))"
    and "\<not> loading (env i k (clip_request f (items ! i)))"
    and "\<forall>resp. decoded (env i k (clip_request f (items ! i))) = Some resp
           \<longrightarrow> list_all is_float64 (Scores resp)"
  shows "\<exists>r. slot_result f env items i = Some r \<and>
     (\<not> keep r \<longleftrightarrow>
        (\<exists>resp. decoded (env i k (clip_request f (items ! i))) = Some resp
           \<and> Labels resp \<noteq> [] \<and> Scores resp \<noteq> []
           \<and> Labels resp ! 0 \<in> set (trashLabels f) \<and> 3 / 10 < Scores resp ! 0))"
proof -
  let ?r = "env i k (clip_request f (items ! i))"
  from assms(1-3) obtain kp lbl sc tr where
    run: "classifyItem f (env i) (items ! i) [] = Some ((kp, lbl, sc), tr)"
    and code: "\<not> kp \<longleftrightarrow>
      (\<exists>resp. decoded ?r = Some resp \<and> Labels resp \<noteq> [] \<and> Scores resp \<noteq> []
         \<and> Labels resp ! 0 \<in> set (trashLabels f) \<and> float64_0_3 < Scores resp ! 0)"
    using classifyItem_reject_iff [of "items ! i" k "env i" f] by blast
  have float: "float64_0_3 < Scores resp ! 0 \<longleftrightarrow> 3 / 10 < Scores resp ! 0"
    if "decoded ?r = Some resp" and "Scores resp \<noteq> []" for resp
  proof -
    from that assms(4) have "list_all is_float64 (Scores resp)" by blast
    with that(2) have "is_float64 (Scores resp ! 0)"
      by (simp add: list_all_length)
    then show ?thesis by (rule float64_0_3_gap)
  qed
  from code float have "\<not> kp \<longleftrightarrow>
      (\<exists>resp. decoded ?r = Some resp \<and> Labels resp \<noteq> [] \<and> Scores resp \<noteq> []
         \<and> Labels resp ! 0 \<in> set (trashLabels f) \<and> 3 / 10 < Scores resp ! 0)"
    by blast
  moreover from assms(1) run have "slot_result f env items i
      = Some \<lparr>index = i, keep = kp, label = lbl, score = sc\<rparr>"
    by (rule slot_result_keep)
  ultimately show ?thesis by simp
qed

text \<open>
  Claim C6: the decision of the classification gate, for the enabled filter the
  program builds, read on the output of \<open>FilterItems\<close>. Let the classification of
  every listing \<open>j\<close> that has an image be answered after \<open>k j\<close> model-loading replies,
  with \<open>float64\<close> scores. Then \<open>FilterItems\<close> returns, and its output consists of the
  listings at the positions \<open>idxs\<close>, in input order. A position whose listing has at
  least one image is left out if and only if the answer for it carries a result with
  labels and scores whose top label is in the reject set and whose top score exceeds
  0.3; so a keep-set top label, or a top score equal to the \<open>float64\<close> written 0.30,
  puts the listing in the output whatever the score. The request is for the first
  image. A position whose listing has no image is in the output, its slot is written
  without a call of \<open>classifyItem\<close>, and \<open>classifyItem\<close> itself would send nothing.
  When the input has no listing twice, a rejected listing does not occur in the output.
\<close>

theorem classification_decision:
  assumes "f = NewAIFilter apiKey' model' enabled'" and "enabled f"
    and "\<forall>j<length items. ImageURLs (items ! j) \<noteq> [] \<longrightarrow>
           (\<forall>n<k j. loading (env j n (clip_request f (items ! j))))
           \<and> \<not> loading (env j (k j) (clip_request f (items ! j)))
           \<and> (\<forall>resp. decoded (env j (k j) (clip_request f (items ! j))) = Some resp
                 \<longrightarrow> list_all is_float64 (Scores resp))"
  shows "\<exists>ys idxs. (\<forall>finish. FilterItems f env finish items = Some ys)
      \<and> ys = map (\<lambda>i. items ! i) idxs \<and> sorted_wrt (<) idxs
      \<and> set idxs \<subseteq> {0..<length items}
      \<and> (\<forall>i<length items.
           (ImageURLs (items ! i) = [] \<longrightarrow>
              i \<in> set idxs \<and> items ! i \<in> set ys
              \<and> slot_result f env items i
                  = Some \<lparr>index = i, keep = True, label = ''no_image'', score = 0\<rparr>
              \<and> classifyItem f srv' (items ! i) tr' = Some ((True, ''no_image'', 0), tr'))
         \<and> (ImageURLs (items ! i) \<noteq> [] \<longrightarrow>
              (i \<notin> set idxs \<longleftrightarrow>
                 (\<exists>resp. decoded (env i (k i) (clip_request f (items ! i))) = Some resp
                    \<and> Labels resp \<noteq> [] \<and> Scores resp \<noteq> []
                    \<and> Labels resp ! 0 \<in> set (trashLabels f) \<and> 3 / 10 < Scores resp ! 0))
              \<and> ((\<exists>resp. decoded (env i (k i) (clip_request f (items ! i))) = Some resp
                    \<and> Labels resp \<noteq> [] \<and> Labels resp ! 0 \<in> set (keepLabels f))
                  \<longrightarrow> i \<in> set idxs \<and> items ! i \<in> set ys)
              \<and> ((\<exists>resp. decoded (env i (k i) (clip_request f (items ! i))) = Some resp
                    \<and> Scores resp \<noteq> [] \<and> Scores resp ! 0 = float64_0_3)
                  \<longrightarrow> i \<in> set idxs \<and> items ! i \<in> set ys)
              \<and> (distinct items \<longrightarrow> (items ! i \<in> set ys \<longleftrightarrow> i \<in> set idxs))
              \<and> Image (clip_request f (items ! i)) = ImageURLs (items ! i) ! 0))"
proof -
  let ?req = "\<lambda>i. clip_request f (items ! i)"
  let ?rej = "\<lambda>i. \<exists>resp. decoded (env i (k i) (?req i)) = Some resp
      \<and> Labels resp \<noteq> [] \<and> Scores resp \<noteq> []
      \<and> Labels resp ! 0 \<in> set (trashLabels f) \<and> 3 / 10 < Scores resp ! 0"
  let ?idxs = "filter (\<lambda>i. keep (the (slot_result f env items i))) [0..<length items]"
  let ?ys = "map (\<lambda>i. items ! i) ?idxs"
  have slot: "\<exists>r. slot_result f env items i = Some r \<and> (\<not> keep r \<longleftrightarrow> ?rej i)"
    if "i < length items" and "ImageURLs (items ! i) \<noteq> []" for i
    using that assms(3) slot_result_decision [of items i "k i" env f] by blast
  have bare: "slot_result f env items i
      = Some \<lparr>index = i, keep = True, label = ''no_image'', score = 0\<rparr>"
    if "ImageURLs (items ! i) = []" for i
    using that by (simp add: slot_result_def)
  have "\<forall>i<length items. slot_result f env items i \<noteq> None"
    using slot bare by (metis option.distinct(1))
  with assms(2) have out: "\<forall>fin. FilterItems f env fin items = Some ?ys"
    by (simp add: FilterItems_enabled)
  have sorted: "sorted_wrt (<) ?idxs"
    by (simp add: sorted_wrt_filter)
  have range: "set ?idxs \<subseteq> {0..<length items}"
    by auto
  have member: "i \<in> set ?idxs \<Longrightarrow> items ! i \<in> set ?ys" for i
    by (rule imageI [of i "set ?idxs" "\<lambda>i. items ! i", simplified set_map [symmetric]])
  have no_image: "i \<in> set ?idxs \<and> items ! i \<in> set ?ys
      \<and> slot_result f env items i
          = Some \<lparr>index = i, keep = True, label = ''no_image'', score = 0\<rparr>
      \<and> classifyItem f srv' (items ! i) tr' = Some ((True, ''no_image'', 0), tr')"
    if i: "i < length items" and none: "ImageURLs (items ! i) = []" for i
  proof -
    from i none have "i \<in> set ?idxs"
      by (simp add: bare)
    with none show ?thesis
      using member [of i] by (simp add: bare classifyItem_no_image)
  qed
  have image: "(i \<notin> set ?idxs \<longleftrightarrow> ?rej i)
      \<and> ((\<exists>resp. decoded (env i (k i) (?req i)) = Some resp
            \<and> Labels resp \<noteq> [] \<and> Labels resp ! 0 \<in> set (keepLabels f))
          \<longrightarrow> i \<in> set ?idxs \<and> items ! i \<in> set ?ys)
      \<and> ((\<exists>resp. decoded (env i (k i) (?req i)) = Some resp
            \<and> Scores resp \<noteq> [] \<and> Scores resp ! 0 = float64_0_3)
          \<longrightarrow> i \<in> set ?idxs \<and> items ! i \<in> set ?ys)
      \<and> (distinct items \<longrightarrow> (items ! i \<in> set ?ys \<longleftrightarrow> i \<in> set ?idxs))
      \<and> Image (?req i) = ImageURLs (items ! i) ! 0"
    if i: "i < length items" and some: "ImageURLs (items ! i) \<noteq> []" for i
  proof -
    from slot [OF i some] i have decision: "i \<notin> set ?idxs \<longleftrightarrow> ?rej i"
      by auto
    have keep_label: "i \<in> set ?idxs" if "decoded (env i (k i) (?req i)) = Some resp"
      and "Labels resp \<noteq> []" and "Labels resp ! 0 \<in> set (keepLabels f)" for resp
    proof (rule ccontr)
      assume "i \<notin> set ?idxs"
      with decision that(1) have "Labels resp ! 0 \<in> set (trashLabels f)" by auto
      with that(3) show False
        using NewAIFilter_keep_not_trash unfolding assms(1) by blast
    qed
    have "\<not> (3 / 10 < float64_0_3)"
      by (simp add: float64_0_3_def)
    then have threshold: "i \<in> set ?idxs" if "decoded (env i (k i) (?req i)) = Some resp"
      and "Scores resp \<noteq> []" and "Scores resp ! 0 = float64_0_3" for resp
      using decision that by auto
    have once: "items ! i \<in> set ?ys \<longleftrightarrow> i \<in> set ?idxs" if "distinct items"
    proof
      assume "items ! i \<in> set ?ys"
      then obtain j where j: "j \<in> set ?idxs" and "items ! j = items ! i"
        by auto
      with that i have "j = i"
        by (simp add: nth_eq_iff_index_eq)
      with j show "i \<in> set ?idxs" by simp
    next
      assume "i \<in> set ?idxs"
      then show "items ! i \<in> set ?ys" by (rule member)
    qed
    have first: "Image (?req i) = ImageURLs (items ! i) ! 0"
      by (simp add: clip_request_def)
    from decision keep_label threshold once first member [of i] show ?thesis
      by blast
  qed
  from out sorted range no_image image show ?thesis
    by (intro exI [of _ ?ys] exI [of _ ?idxs]) blast
qed

theorem classification_decision_witness:
  "FilterItems example_filter (\<lambda>i. loading_twice) (\<lambda>i. i)
     [example_item, example_item_no_image] = Some [example_item_no_image]"
proof -
  let ?items = "[example_item, example_item_no_image]"
  have 1: "example_filter = NewAIFilter ''hf_key'' ''openai/clip-vit-large-patch14'' True"
    by (simp add: example_filter_def)
  have 2: "enabled example_filter"
    by (simp add: example_filter_def NewAIFilter_def)
  have 3: "\<forall>j<length ?items. ImageURLs (?items ! j) \<noteq> [] \<longrightarrow>
      (\<forall>n<2. loading (loading_twice n (clip_request example_filter (?items ! j))))
      \<and> \<not> loading (loading_twice 2 (clip_request example_filter (?items ! j)))
      \<and> (\<forall>resp. decoded (loading_twice 2 (clip_request example_filter (?items ! j)))
             = Some resp \<longrightarrow> list_all is_float64 (Scores resp))"
    by (auto simp: loading_twice_def loading_def receipt_response_def
        is_float64_three_quarters is_float64_one_quarter)
  have rejected: "\<exists>resp. decoded (loading_twice 2 (clip_request example_filter (?items ! 0)))
      = Some resp \<and> Labels resp \<noteq> [] \<and> Scores resp \<noteq> []
      \<and> Labels resp ! 0 \<in> set (trashLabels example_filter) \<and> 3 / 10 < Scores resp ! 0"
    by (simp add: loading_twice_def receipt_response_def example_filter_def NewAIFilter_def)
  have l: "0 < length ?items" "1 < length ?items"
    by simp_all
  have bare: "ImageURLs (?items ! 1) = []" and image: "ImageURLs (?items ! 0) \<noteq> []"
    by (simp_all add: example_item_def example_item_no_image_def)
  let ?req = "\<lambda>i. clip_request example_filter (?items ! i)"
  have "\<exists>ys idxs. (\<forall>finish. FilterItems example_filter (\<lambda>i. loading_twice) finish ?items
        = Some ys)
      \<and> ys = map (\<lambda>i. ?items ! i) idxs \<and> sorted_wrt (<) idxs
      \<and> set idxs \<subseteq> {0..<length ?items}
      \<and> (\<forall>i<length ?items.
           (ImageURLs (?items ! i) = [] \<longrightarrow>
              i \<in> set idxs \<and> ?items ! i \<in> set ys
              \<and> slot_result example_filter (\<lambda>i. loading_twice) ?items i
                  = Some \<lparr>index = i, keep = True, label = ''no_image'', score = 0\<rparr>
              \<and> classifyItem example_filter always_loading (?items ! i) []
                  = Some ((True, ''no_image'', 0), []))
         \<and> (ImageURLs (?items ! i) \<noteq> [] \<longrightarrow>
              (i \<notin> set idxs \<longleftrightarrow>
                 (\<exists>resp. decoded (loading_twice 2 (?req i)) = Some resp
                    \<and> Labels resp \<noteq> [] \<and> Scores resp \<noteq> []
                    \<and> Labels resp ! 0 \<in> set (trashLabels example_filter)
                    \<and> 3 / 10 < Scores resp ! 0))
              \<and> ((\<exists>resp. decoded (loading_twice 2 (?req i)) = Some resp
                    \<and> Labels resp \<noteq> [] \<and> Labels resp ! 0 \<in> set (keepLabels example_filter))
                  \<longrightarrow> i \<in> set idxs \<and> ?items ! i \<in> set ys)
              \<and> ((\<exists>resp. decoded (loading_twice 2 (?req i)) = Some resp
                    \<and> Scores resp \<noteq> [] \<and> Scores resp ! 0 = float64_0_3)
                  \<longrightarrow> i \<in> set idxs \<and> ?items ! i \<in> set ys)
              \<and> (distinct ?items \<longrightarrow> (?items ! i \<in> set ys \<longleftrightarrow> i \<in> set idxs))
              \<and> Image (?req i) = ImageURLs (?items ! i) ! 0))"
    (is "\<exists>ys idxs. ?P ys idxs")
    by (rule classification_decision [where f = example_filter and items = ?items
      and k = "\<lambda>j. 2" and env = "\<lambda>i. loading_twice" and srv' = always_loading
      and tr' = "[]", OF 1 2 3])
  then obtain ys idxs where P: "?P ys idxs"
    by (elim exE)
  from P have out: "\<forall>finish. FilterItems example_filter (\<lambda>i. loading_twice) finish
        ?items = Some ys"
    by (rule conjunct1)
  note rest = P [THEN conjunct2]
  from rest have ys: "ys = map (\<lambda>i. ?items ! i) idxs"
    by (rule conjunct1)
  from rest [THEN conjunct2] have sorted: "sorted_wrt (<) idxs"
    by (rule conjunct1)
  from rest [THEN conjunct2, THEN conjunct2] have range: "set idxs \<subseteq> {0..<length ?items}"
    by (rule conjunct1)
  note each = rest [THEN conjunct2, THEN conjunct2, THEN conjunct2, rule_format]
  from each [OF l(1), THEN conjunct2, THEN mp, OF image, THEN conjunct1] rejected
  have "0 \<notin> set idxs"
    by simp
  moreover from each [OF l(2), THEN conjunct1, THEN mp, OF bare, THEN conjunct1]
  have "1 \<in> set idxs" .
  ultimately have "0 \<notin> set idxs" and "1 \<in> set idxs"
    by simp_all
  with range have "set idxs = set [1::nat]"
    by (auto simp: less_Suc_eq)
  moreover from sorted have "sorted idxs" and "distinct idxs"
    by (simp_all add: strict_sorted_iff)
  ultimately have "idxs = [1]"
    by (intro sorted_distinct_set_unique) simp_all
  with out ys show ?thesis by simp
qed

text \<open>
  Claim C10: \<open>FilterItems\<close> returns a subsequence of its input. When the filter is
  disabled, or the classification of every listing with an image is answered,
  \<open>FilterItems\<close> returns the listings at a strictly increasing list of input positions
  (so each kept position once, in input order), which are the positions whose slot
  says "keep"; and the result is the same for every order in which the concurrent
  writes to the slots happen.
\<close>

theorem FilterItems_subsequence:
  assumes "enabled f \<longrightarrow> (\<forall>i<length items. ImageURLs (items ! i) = []
            \<or> eventually_answers (env i) (clip_request f (items ! i)))"
  shows "\<exists>ys idxs. FilterItems f env finish items = Some ys
      \<and> subseq ys items
      \<and> ys = map (\<lambda>i. items ! i) idxs \<and> sorted_wrt (<) idxs \<and> set idxs \<subseteq> {0..<length items}
      \<and> (enabled f \<longrightarrow>
           idxs = filter (\<lambda>i. keep (the (slot_result f env items i))) [0..<length items])
      \<and> (\<forall>finish'. FilterItems f env finish' items = Some ys)"
proof (cases "enabled f")
  case False
  then have "\<forall>fin. FilterItems f env fin items = Some items"
    by (simp add: FilterItems_disabled)
  moreover have "items = map (\<lambda>i. items ! i) [0..<length items]"
    by (simp add: map_nth)
  moreover have "sorted_wrt (<) [0..<length items]" by simp
  ultimately show ?thesis
    using False by (intro exI [of _ items] exI [of _ "[0..<length items]"]) auto
next
  case True
  let ?idxs = "filter (\<lambda>i. keep (the (slot_result f env items i))) [0..<length items]"
  let ?ys = "map (\<lambda>i. items ! i) ?idxs"
  from True assms have "\<forall>i<length items. slot_result f env items i \<noteq> None"
    by (simp add: slot_result_returns)
  with True have "\<forall>fin. FilterItems f env fin items = Some ?ys"
    by (simp add: FilterItems_enabled)
  moreover have "subseq ?ys items" by (rule subseq_collect)
  moreover have "sorted_wrt (<) ?idxs" by (simp add: sorted_wrt_filter)
  moreover have "set ?idxs \<subseteq> {0..<length items}" by auto
  ultimately show ?thesis
    by (intro exI [of _ ?ys] exI [of _ ?idxs]) simp
qed

theorem FilterItems_subsequence_witness:
  "\<exists>ys. FilterItems example_filter (\<lambda>i. loading_twice) (\<lambda>i. 1 - i)
        [example_item, example_item_no_image] = Some ys
     \<and> subseq ys [example_item, example_item_no_image]
     \<and> FilterItems example_filter (\<lambda>i. loading_twice) (\<lambda>i. i)
        [example_item, example_item_no_image] = Some ys"
proof -
  have "enabled example_filter \<longrightarrow>
      (\<forall>i<length [example_item, example_item_no_image].
         ImageURLs ([example_item, example_item_no_image] ! i) = []
         \<or> eventually_answers loading_twice
             (clip_request example_filter ([example_item, example_item_no_image] ! i)))"
    by (auto simp: eventually_answers_def loading_twice_def loading_def
        intro!: exI [of _ 2])
  from FilterItems_subsequence [OF this, of "\<lambda>i. 1 - i"] show ?thesis
    by blast
qed

section \<open>Properties of the scan\<close>

subsection \<open>\<open>searchWithRetry\<close>: attempts and waits\<close>

lemma after_attempts_0 [simp]: "after_attempts w req 0 st = st"
  by (simp add: after_attempts_def attempts_trace_def)

lemma loop_exhausted:
  "maxRetries < attempt \<Longrightarrow>
   searchWithRetry_loop w cfg k pmin pmax maxRetries attempt lastErr st
     = (Inl (Errorf ''all retries failed'' lastErr), st)"
  by (subst searchWithRetry_loop.simps) simp

lemma loop_step_fail:
  assumes "int n \<le> maxRetries"
    and "Search w (tick st + 2 * n) (search_request_of cfg k pmin pmax) = Inl e"
  shows "searchWithRetry_loop w cfg k pmin pmax maxRetries (int n) lastErr
            (after_attempts w (search_request_of cfg k pmin pmax) n st)
     = searchWithRetry_loop w cfg k pmin pmax maxRetries (int (Suc n))
            (Some (Errorf ''search failed'' (Some e)))
            (after_attempts w (search_request_of cfg k pmin pmax) (Suc n) st)"
proof (cases n)
  case 0
  with assms show ?thesis
    by (subst searchWithRetry_loop.simps)
       (simp add: SearchWithFallback_def search_request_of_def after_attempts_def
          attempts_trace_def attempt_events_def next_tick_def emit_def)
next
  case (Suc m)
  with assms show ?thesis
    by (subst searchWithRetry_loop.simps)
       (simp add: SearchWithFallback_def search_request_of_def after_attempts_def
          attempts_trace_def attempt_events_def next_tick_def emit_def rand_Intn_def
          time_Sleep_def attempt_sleep_def Let_def nat_add_distrib)
qed

lemma loop_step_ok:
  assumes "int n \<le> maxRetries"
    and "Search w (tick st + 2 * n) (search_request_of cfg k pmin pmax) = Inr items"
  shows "searchWithRetry_loop w cfg k pmin pmax maxRetries (int n) lastErr
            (after_attempts w (search_request_of cfg k pmin pmax) n st)
     = (Inr items, after_attempts w (search_request_of cfg k pmin pmax) (Suc n) st)"
proof (cases n)
  case 0
  with assms show ?thesis
    by (subst searchWithRetry_loop.simps)
       (simp add: SearchWithFallback_def search_request_of_def after_attempts_def
          attempts_trace_def attempt_events_def next_tick_def emit_def)
next
  case (Suc m)
  with assms show ?thesis
    by (subst searchWithRetry_loop.simps)
       (simp add: SearchWithFallback_def search_request_of_def after_attempts_def
          attempts_trace_def attempt_events_def next_tick_def emit_def rand_Intn_def
          time_Sleep_def attempt_sleep_def Let_def nat_add_distrib)
qed

lemma attempt_sleep_word:
  "attempt_sleep k j = word_of_int (backoff_ns k j)"
proof -
  have "(push_bit (k - 1) 1 :: Duration) = word_of_int (2 ^ (k - 1))"
    by (simp add: word_of_int_power_hom [symmetric])
  moreover have "(word_of_nat j :: Duration) = word_of_int (int j)"
    by simp
  ultimately show ?thesis
    by (simp add: attempt_sleep_def backoff_ns_def Second_def Millisecond_def)
qed

lemma backoff_ns_bounds:
  assumes "k \<le> 34" "j < 1000"
  shows "0 \<le> backoff_ns k j" "backoff_ns k j < 2 ^ 63"
proof -
  from assms(1) have "(2::int) ^ (k - 1) \<le> 2 ^ 33"
    by (intro power_increasing) simp_all
  then have "(2::int) ^ (k - 1) * 1000000000 \<le> 2 ^ 33 * 1000000000"
    by simp
  moreover from assms(2) have "int j * 1000000 < 1000000000" by simp
  ultimately show "backoff_ns k j < 2 ^ 63"
    by (simp add: backoff_ns_def)
  show "0 \<le> backoff_ns k j"
    by (simp add: backoff_ns_def)
qed

lemma attempt_sleep_exact:
  assumes "k \<le> 34" "j < 1000"
  shows "sint (attempt_sleep k j) = backoff_ns k j"
proof -
  from assms have "0 \<le> backoff_ns k j" "backoff_ns k j < 2 ^ 63"
    by (rule backoff_ns_bounds)+
  then have "signed_take_bit 63 (backoff_ns k j) = backoff_ns k j"
    by (simp add: signed_take_bit_int_eq_self)
  then show ?thesis
    by (simp add: attempt_sleep_word sint_sbintrunc')
qed

lemma searchWithRetry_fails:
  assumes "\<forall>n<N. int n \<le> maxRetries
            \<and> (\<exists>e. Search w (tick st + 2 * n) (search_request_of cfg k pmin pmax) = Inl e)"
  shows "\<exists>lastErr. searchWithRetry w cfg k pmin pmax maxRetries st
     = searchWithRetry_loop w cfg k pmin pmax maxRetries (int N) lastErr
         (after_attempts w (search_request_of cfg k pmin pmax) N st)
     \<and> (N = 0 \<longrightarrow> lastErr = None)
     \<and> (\<forall>e. 0 < N \<longrightarrow> Search w (tick st + 2 * (N - 1)) (search_request_of cfg k pmin pmax) = Inl e
           \<longrightarrow> lastErr = Some (Errorf ''search failed'' (Some e)))"
  using assms
proof (induction N)
  case 0
  show ?case by (simp add: searchWithRetry_def)
next
  case (Suc N)
  then obtain lastErr where run: "searchWithRetry w cfg k pmin pmax maxRetries st
     = searchWithRetry_loop w cfg k pmin pmax maxRetries (int N) lastErr
         (after_attempts w (search_request_of cfg k pmin pmax) N st)"
    by (metis less_Suc_eq)
  from Suc.prems obtain e where le: "int N \<le> maxRetries"
    and e: "Search w (tick st + 2 * N) (search_request_of cfg k pmin pmax) = Inl e"
    by blast
  from le e have "searchWithRetry_loop w cfg k pmin pmax maxRetries (int N) lastErr
         (after_attempts w (search_request_of cfg k pmin pmax) N st)
     = searchWithRetry_loop w cfg k pmin pmax maxRetries (int (Suc N))
            (Some (Errorf ''search failed'' (Some e)))
            (after_attempts w (search_request_of cfg k pmin pmax) (Suc N) st)"
    by (rule loop_step_fail)
  with run e show ?case
    by auto
qed

lemma searches_after_attempts:
  "searches (after_attempts w req n st) = searches st + n"
proof -
  have "length (filter is_Searched (attempts_trace w req t0 n)) = n" for t0
    by (induction n) (simp_all add: attempts_trace_def attempt_events_def)
  then show ?thesis
    by (simp add: searches_def after_attempts_def)
qed

text \<open>
  Claim C7: the attempts and waits of \<open>searchWithRetry\<close>, for a retry bound
  \<open>maxRetries\<close> from 0 to 34 (the scan passes 3; up to 34 the wait, which the code
  holds as a count of nanoseconds, is the number of the claim). When the first \<open>a\<close>
  attempts fail, with any error, and attempt \<open>a\<close>, if there is one, succeeds,
  \<open>searchWithRetry\<close> runs attempt 0 at once and, before each retry attempt \<open>n\<close> in
  \<open>1..maxRetries\<close> that it makes, sleeps \<open>2^(n-1)\<close> seconds plus a random jitter
  under one second: the jitter is \<open>rand.Intn(1000)\<close> milliseconds, a draw that
  \<open>math/rand\<close> makes uniformly from \<open>0..999\<close> and that is an input here, the
  statement holding for every value of it. Every failed attempt is followed by the
  next one: the function makes \<open>a + 1\<close> attempts and returns the listings of attempt
  \<open>a\<close>, or, when all \<open>maxRetries + 1\<close> attempts fail, makes exactly these attempts
  and returns a terminal error that wraps the error of the last attempt. For
  \<open>maxRetries = 3\<close> and a search that always fails these are 4 attempts, with waits
  of 1, 2 and 4 seconds plus jitter.
\<close>

theorem searchWithRetry_backoff:
  fixes a :: nat
  assumes "0 \<le> maxRetries" and "maxRetries \<le> 34" and "int a \<le> maxRetries + 1"
    and "\<forall>n<a. \<exists>e. Search w (tick st + 2 * n) (search_request_of cfg k pmin pmax) = Inl e"
    and "int a \<le> maxRetries \<longrightarrow>
           (\<exists>items. Search w (tick st + 2 * a) (search_request_of cfg k pmin pmax) = Inr items)"
  shows "snd (searchWithRetry w cfg k pmin pmax maxRetries st)
        = after_attempts w (search_request_of cfg k pmin pmax)
            (if int a \<le> maxRetries then Suc a else a) st
    \<and> searches (snd (searchWithRetry w cfg k pmin pmax maxRetries st))
        = searches st + (if int a \<le> maxRetries then Suc a else a)
    \<and> (int a \<le> maxRetries \<longrightarrow>
         fst (searchWithRetry w cfg k pmin pmax maxRetries st)
           = Search w (tick st + 2 * a) (search_request_of cfg k pmin pmax))
    \<and> (int a = maxRetries + 1 \<longrightarrow>
         (\<exists>e. Search w (tick st + 2 * nat maxRetries) (search_request_of cfg k pmin pmax)
                = Inl e
            \<and> fst (searchWithRetry w cfg k pmin pmax maxRetries st)
                = Inl (Errorf ''all retries failed'' (Some (Errorf ''search failed'' (Some e))))))
    \<and> (\<forall>n j. 0 < n \<and> n \<le> nat maxRetries \<and> j = random w (tick st + 2 * n - 1) mod 1000
         \<longrightarrow>
         sint (attempt_sleep n j) = 2 ^ (n - 1) * 1000000000 + int j * 1000000
         \<and> slept_nanoseconds (attempt_sleep n j) = 2 ^ (n - 1) * 1000000000 + int j * 1000000
         \<and> int j * 1000000 < 1000000000)"
proof -
  let ?req = "search_request_of cfg k pmin pmax"
  let ?run = "searchWithRetry w cfg k pmin pmax maxRetries st"
  from assms(3,4) have "\<forall>n<a. int n \<le> maxRetries
      \<and> (\<exists>e. Search w (tick st + 2 * n) ?req = Inl e)"
    by auto
  then obtain lastErr where run: "?run
      = searchWithRetry_loop w cfg k pmin pmax maxRetries (int a) lastErr
          (after_attempts w ?req a st)"
    and last: "\<forall>e. 0 < a \<longrightarrow> Search w (tick st + 2 * (a - 1)) ?req = Inl e
           \<longrightarrow> lastErr = Some (Errorf ''search failed'' (Some e))"
    using searchWithRetry_fails [of a maxRetries w st cfg k pmin pmax] by blast
  have result: "?run = (if int a \<le> maxRetries then
        (Search w (tick st + 2 * a) ?req, after_attempts w ?req (Suc a) st)
      else (Inl (Errorf ''all retries failed'' lastErr), after_attempts w ?req a st))"
  proof (cases "int a \<le> maxRetries")
    case True
    with assms(5) obtain items where "Search w (tick st + 2 * a) ?req = Inr items"
      by blast
    with True run show ?thesis
      by (simp add: loop_step_ok)
  next
    case False
    with run show ?thesis
      by (simp add: loop_exhausted)
  qed
  have exhausted: "\<exists>e. Search w (tick st + 2 * nat maxRetries) ?req = Inl e
      \<and> fst ?run = Inl (Errorf ''all retries failed'' (Some (Errorf ''search failed'' (Some e))))"
    if "int a = maxRetries + 1"
  proof -
    from that assms(1) have a: "0 < a" "a - 1 = nat maxRetries" by linarith+
    with assms(4) obtain e where e: "Search w (tick st + 2 * nat maxRetries) ?req = Inl e"
      by (metis diff_less zero_less_one)
    with a last have "lastErr = Some (Errorf ''search failed'' (Some e))"
      by simp
    with that result e show ?thesis
      by simp
  qed
  have waits: "sint (attempt_sleep n j) = 2 ^ (n - 1) * 1000000000 + int j * 1000000
      \<and> slept_nanoseconds (attempt_sleep n j) = 2 ^ (n - 1) * 1000000000 + int j * 1000000
      \<and> int j * 1000000 < 1000000000"
    if "0 < n" and "n \<le> nat maxRetries" and "j = random w (tick st + 2 * n - 1) mod 1000"
    for n j
  proof -
    from that(2) assms(2) have n: "n \<le> 34" by linarith
    from that(3) have j: "j < 1000" by simp
    from n j have "sint (attempt_sleep n j) = backoff_ns n j"
      by (rule attempt_sleep_exact)
    moreover from n j have "0 \<le> backoff_ns n j"
      by (rule backoff_ns_bounds)
    ultimately show ?thesis
      using j by (simp add: slept_nanoseconds_def backoff_ns_def)
  qed
  from result exhausted waits show ?thesis
    by (simp add: searches_after_attempts)
qed

theorem searchWithRetry_backoff_witness:
  "searches (snd (searchWithRetry failing_world example_config ''prada'' 3000 15000 3
      initial_state)) = 4
   \<and> fst (searchWithRetry failing_world example_config ''prada'' 3000 15000 3 initial_state)
       = Inl (Errorf ''all retries failed''
           (Some (Errorf ''search failed'' (Some (Error ''timeout'')))))
   \<and> trace (snd (searchWithRetry failing_world example_config ''prada'' 3000 15000 3
       initial_state))
       = [Searched (search_request_of example_config ''prada'' 3000 15000),
          Slept 1000000000,
          Searched (search_request_of example_config ''prada'' 3000 15000),
          Slept 2000000000,
          Searched (search_request_of example_config ''prada'' 3000 15000),
          Slept 4000000000,
          Searched (search_request_of example_config ''prada'' 3000 15000)]"
proof -
  have 1: "(0::int) \<le> 3" and 2: "(3::int) \<le> 34" and 3: "int 4 \<le> 3 + 1"
    by simp_all
  have 4: "\<forall>n<4. \<exists>e. Search failing_world (tick initial_state + 2 * n)
      (search_request_of example_config ''prada'' 3000 15000) = Inl e"
    by (simp add: failing_world_def)
  have 5: "int 4 \<le> 3 \<longrightarrow> (\<exists>items. Search failing_world (tick initial_state + 2 * 4)
      (search_request_of example_config ''prada'' 3000 15000) = Inr items)"
    by simp
  have upt4: "[0..<4] = [0, 1, 2, 3]"
    by (simp add: upt_rec)
  from searchWithRetry_backoff [OF 1 2 3 4 5] show ?thesis
    by (simp add: failing_world_def initial_state_def searches_def after_attempts_def
        attempts_trace_def attempt_events_def attempt_sleep_def Second_def Millisecond_def
        upt4)
qed

subsection \<open>The stage sizes of a scan\<close>

lemma age_filter_length: "length (fst (age_filter w cfg items st)) \<le> length items"
  by (induction items arbitrary: st) (auto simp: Let_def le_SucI)

lemma dedup_filter_length: "length (fst (dedup_filter w items st)) \<le> length items"
  by (induction items arbitrary: st) (auto simp: Let_def le_SucI)

lemma write_slots_length:
  "write_slots slot order rs = Some rs' \<Longrightarrow> length rs' = length rs"
  by (induction order arbitrary: rs) (auto split: option.splits)

lemma collect_kept_length: "length (collect_kept items results) \<le> length results"
proof -
  have "length (filter (\<lambda>i. keep (results ! i)) [0..<length results])
      \<le> length [0..<length results]"
    by (rule length_filter_le)
  then show ?thesis by (simp add: collect_kept_def)
qed

lemma FilterItems_length:
  assumes "FilterItems f env fin xs = Some ys"
  shows "length ys \<le> length xs"
proof (cases "\<not> enabled f \<or> xs = []")
  case True
  with assms show ?thesis by (auto simp: FilterItems_def split: if_splits)
next
  case False
  with assms obtain results where w: "write_slots (slot_result f env xs)
      (sort_key fin [0..<length xs]) (replicate (length xs) zero_result) = Some results"
    and ys: "ys = collect_kept xs results"
    by (auto simp: FilterItems_def split: option.splits)
  from w have "length results = length xs"
    by (simp add: write_slots_length)
  with ys show ?thesis
    using collect_kept_length [of xs results] by simp
qed

lemma notify_loop_sent:
  "sent' \<le> fst (notify_loop w b items sent' st)
   \<and> fst (notify_loop w b items sent' st) \<le> sent' + int (length items)"
proof (induction items arbitrary: sent' st)
  case Nil
  show ?case by simp
next
  case (Cons item rest)
  show ?case
    using Cons.IH [of sent'] Cons.IH [of "sent' + 1"]
    by (simp add: Let_def) (smt (verit))
qed

lemma scan_keyword_monotone:
  assumes "scan_keyword w cfg f b pMin pMax k c st = Returned (c', st')"
    and "monotone_counts c"
  shows "monotone_counts c'"
proof -
  let ?searched = "searchWithRetry w cfg k pMin pMax 3 st"
  show ?thesis
  proof (cases "fst ?searched")
    case (Inl err)
    with assms show ?thesis
      by (simp add: scan_keyword_def)
  next
    case (Inr items)
    let ?aged = "age_filter w cfg items (snd ?searched)"
    let ?deduped = "dedup_filter w (fst ?aged) (snd ?aged)"
    let ?unseen = "fst ?deduped"
    let ?c2 = "c\<lparr>found := found c + int (length items),
                 fresh := fresh c + int (length (fst ?aged)),
                 newItems := newItems c + int (length ?unseen)\<rparr>"
    have 1: "length (fst ?aged) \<le> length items" by (rule age_filter_length)
    have 2: "length ?unseen \<le> length (fst ?aged)" by (rule dedup_filter_length)
    from assms(2) 1 2 have c2: "monotone_counts ?c2"
      by (simp add: monotone_counts_def)
    show ?thesis
    proof (cases "length ?unseen = 0")
      case True
      with assms(1) Inr have "c' = c\<lparr>found := found c + int (length items),
                 fresh := fresh c + int (length (fst ?aged))\<rparr>"
        by (auto simp: scan_keyword_def Let_def)
      with assms(2) 1 2 True show ?thesis
        by (simp add: monotone_counts_def)
    next
      case False
      let ?capped = "if int (length ?unseen) > MaxDealsPerBrand cfg
                     then take (nat (MaxDealsPerBrand cfg)) ?unseen else ?unseen"
      have cap: "length ?capped \<le> length ?unseen" by (simp add: nat_le_iff)
      from assms(1) Inr False obtain kept' where
        filt: "FilterItems f (clip w (tick (snd ?deduped))) (goroutines w (tick (snd ?deduped)))
                 ?capped = Some kept'"
        and c': "c' = ?c2\<lparr>kept := kept ?c2 + int (length kept'),
                  sent := fst (notify_loop w b kept' (sent ?c2) (next_tick (snd ?deduped)))\<rparr>"
        by (auto simp: scan_keyword_def Let_def split: if_splits option.splits)
      from filt have 3: "length kept' \<le> length ?capped" by (rule FilterItems_length)
      have 4: "sent ?c2 \<le> fst (notify_loop w b kept' (sent ?c2) (next_tick (snd ?deduped)))"
        and 5: "fst (notify_loop w b kept' (sent ?c2) (next_tick (snd ?deduped)))
                  \<le> sent ?c2 + int (length kept')"
        using notify_loop_sent by blast+
      from assms(2) 1 2 3 4 5 cap show ?thesis
        unfolding c' monotone_counts_def by (simp split: if_splits)
    qed
  qed
qed

lemma keyword_loop_monotone:
  "keyword_loop w cfg f b pMin pMax ks c st = Returned (c', st') \<Longrightarrow> monotone_counts c \<Longrightarrow>
   monotone_counts c'"
proof (induction ks arbitrary: c st)
  case Nil
  then show ?case by simp
next
  case (Cons k ks)
  from Cons.prems(1) obtain c1 st1 where
    step: "scan_keyword w cfg f b pMin pMax k c st = Returned (c1, st1)"
    and rest: "keyword_loop w cfg f b pMin pMax ks c1 st1 = Returned (c', st')"
    by (auto split: outcome.splits)
  from step Cons.prems(2) have "monotone_counts c1" by (rule scan_keyword_monotone)
  with rest show ?case by (rule Cons.IH)
qed

lemma monotone_no_counts: "monotone_counts no_counts"
  by (simp add: monotone_counts_def no_counts_def)

lemma scanBrand_monotone:
  "scanBrand w cfg f b st = Returned (c, st') \<Longrightarrow> monotone_counts c"
  unfolding scanBrand_def Let_def
  by (erule keyword_loop_monotone) (rule monotone_no_counts)

lemma monotone_add_counts:
  "monotone_counts a \<Longrightarrow> monotone_counts b \<Longrightarrow> monotone_counts (add_counts a b)"
  by (simp add: monotone_counts_def add_counts_def)

lemma brand_loop_monotone:
  "brand_loop w cfg f bs totals st = Returned (c, st') \<Longrightarrow> monotone_counts totals \<Longrightarrow>
   monotone_counts c"
proof (induction bs arbitrary: totals st)
  case Nil
  then show ?case by simp
next
  case (Cons b bs)
  from Cons.prems(1) obtain c1 st1 where
    step: "scanBrand w cfg f b st = Returned (c1, st1)"
    and rest: "brand_loop w cfg f bs (add_counts totals c1)
        (time_Sleep (word_of_nat (500 + fst (rand_Intn w 1500 st1)) * Millisecond)
           (snd (rand_Intn w 1500 st1))) = Returned (c, st')"
    by (auto simp: Let_def split: outcome.splits)
  from step have "monotone_counts c1" by (rule scanBrand_monotone)
  with Cons.prems(2) have "monotone_counts (add_counts totals c1)"
    by (rule monotone_add_counts)
  with rest show ?case by (rule Cons.IH)
qed

text \<open>
  With a disabled filter and a cap that is not negative the cycle returns: nothing
  in it can block or panic.
\<close>

lemma scan_keyword_returns:
  "\<not> enabled f \<Longrightarrow> 0 \<le> MaxDealsPerBrand cfg \<Longrightarrow>
   \<exists>r. scan_keyword w cfg f b pMin pMax k c st = Returned r"
  by (auto simp: scan_keyword_def Let_def FilterItems_disabled split: sum.splits)

lemma keyword_loop_returns:
  "\<not> enabled f \<Longrightarrow> 0 \<le> MaxDealsPerBrand cfg \<Longrightarrow>
   \<exists>r. keyword_loop w cfg f b pMin pMax ks c st = Returned r"
proof (induction ks arbitrary: c st)
  case Nil
  show ?case by simp
next
  case (Cons k ks)
  from Cons.prems obtain c1 st1 where
    "scan_keyword w cfg f b pMin pMax k c st = Returned (c1, st1)"
    using scan_keyword_returns by (metis surj_pair)
  with Cons.IH [OF Cons.prems, of c1 st1] show ?case
    by simp
qed

lemma brand_loop_returns:
  "\<not> enabled f \<Longrightarrow> 0 \<le> MaxDealsPerBrand cfg \<Longrightarrow>
   \<exists>r. brand_loop w cfg f bs totals st = Returned r"
proof (induction bs arbitrary: totals st)
  case Nil
  show ?case by simp
next
  case (Cons b bs)
  from Cons.prems obtain c1 st1 where "scanBrand w cfg f b st = Returned (c1, st1)"
    unfolding scanBrand_def Let_def using keyword_loop_returns by (metis surj_pair)
  with Cons.IH [OF Cons.prems] show ?case
    by (simp add: Let_def)
qed

text \<open>
  Claim C8: the stage counters of a scan cycle are ordered. For every cycle that
  completes, the totals satisfy found \<open>\<ge>\<close> fresh \<open>\<ge>\<close> unseen \<open>\<ge>\<close> kept \<open>\<ge>\<close> sent, where
  unseen is the counter \<open>newItems\<close> of the code, and fresh and kept are the sums of
  the lengths of the lists \<open>fresh\<close> and \<open>kept\<close> of each keyword: the age filter, the
  dedup filter, the cap, the classification gate and the notification loop each pass
  on no more listings than they get.
\<close>

theorem scan_cycle_counts_monotone:
  assumes "runScanCycle w cfg f st = Returned (c, st')"
  shows "found c \<ge> fresh c \<and> fresh c \<ge> newItems c \<and> newItems c \<ge> kept c \<and> kept c \<ge> sent c"
proof -
  from assms have "brand_loop w cfg f (Brands cfg) no_counts st = Returned (c, st')"
    by (simp add: runScanCycle_def)
  then have "monotone_counts c"
    by (rule brand_loop_monotone) (rule monotone_no_counts)
  then show ?thesis
    by (simp add: monotone_counts_def)
qed

lemma busy_cycle:
  "runScanCycle busy_world example_config example_filter initial_state =
     Returned (\<lparr>found = 3, fresh = 2, newItems = 2, kept = 1, sent = 1\<rparr>,
       \<lparr>tick = 11,
        store = \<lparr>db = \<lparr>seen_items =
          [\<lparr>id_key = ''m456'', brand = ''Prada'', name = ''wallet'', price = 7000,
            seen_at = 0\<rparr>], unavailable = False\<rparr>\<rparr>,
        trace = [Searched (search_request_of example_config ''prada'' 3000 15000),
                 Notified example_deal True, Marked ''m456'', Slept 200000000,
                 Slept 500000000]\<rparr>)"
  by code_simp

theorem scan_cycle_counts_monotone_witness:
  "(3::int) \<ge> 2 \<and> (2::int) \<ge> 2 \<and> (2::int) \<ge> 1 \<and> (1::int) \<ge> 1
   \<and> runScanCycle busy_world example_config example_filter initial_state =
     Returned (\<lparr>found = 3, fresh = 2, newItems = 2, kept = 1, sent = 1\<rparr>,
       \<lparr>tick = 11,
        store = \<lparr>db = \<lparr>seen_items =
          [\<lparr>id_key = ''m456'', brand = ''Prada'', name = ''wallet'', price = 7000,
            seen_at = 0\<rparr>], unavailable = False\<rparr>\<rparr>,
        trace = [Searched (search_request_of example_config ''prada'' 3000 15000),
                 Notified example_deal True, Marked ''m456'', Slept 200000000,
                 Slept 500000000]\<rparr>)"
  using scan_cycle_counts_monotone [OF busy_cycle] busy_cycle by simp

text \<open>
  Claim C1, at a failing input: one keyword, one fresh unseen listing that passes the
  filter, and a notifier whose \<open>SendDeal\<close> returns an error. \<open>scanBrand\<close> attempts the
  notification and goes on to the next listing without calling \<open>MarkSeen\<close>: no
  record for the listing exists afterwards, and the next scan finds the listing unseen
  and notifies again. When \<open>SendDeal\<close> succeeds the listing is marked.
\<close>

theorem scanBrand_failed_send_not_marked:
  "scanBrand send_failing_world example_config filter_off example_brand initial_state =
     Returned (\<lparr>found = 1, fresh = 1, newItems = 1, kept = 1, sent = 0\<rparr>,
       \<lparr>tick = 6, store = \<lparr>db = \<lparr>seen_items = [], unavailable = False\<rparr>\<rparr>,
        trace = [Searched (search_request_of example_config ''prada'' 3000 15000),
                 Notified example_deal False]\<rparr>)
   \<and> HasSeen \<lparr>db = \<lparr>seen_items = [], unavailable = False\<rparr>\<rparr> (ID example_item_no_image) = False
   \<and> scanBrand send_failing_world example_config filter_off example_brand
       \<lparr>tick = 6, store = \<lparr>db = \<lparr>seen_items = [], unavailable = False\<rparr>\<rparr>,
        trace = [Searched (search_request_of example_config ''prada'' 3000 15000),
                 Notified example_deal False]\<rparr> =
     Returned (\<lparr>found = 1, fresh = 1, newItems = 1, kept = 1, sent = 0\<rparr>,
       \<lparr>tick = 12, store = \<lparr>db = \<lparr>seen_items = [], unavailable = False\<rparr>\<rparr>,
        trace = [Searched (search_request_of example_config ''prada'' 3000 15000),
                 Notified example_deal False,
                 Searched (search_request_of example_config ''prada'' 3000 15000),
                 Notified example_deal False]\<rparr>)
   \<and> scanBrand sending_world example_config filter_off example_brand initial_state =
     Returned (\<lparr>found = 1, fresh = 1, newItems = 1, kept = 1, sent = 1\<rparr>,
       \<lparr>tick = 7,
        store = \<lparr>db = \<lparr>seen_items =
          [\<lparr>id_key = ''m456'', brand = ''Prada'', name = ''wallet'', price = 7000,
            seen_at = 0\<rparr>], unavailable = False\<rparr>\<rparr>,
        trace = [Searched (search_request_of example_config ''prada'' 3000 15000),
                 Notified example_deal True, Marked ''m456'', Slept 200000000]\<rparr>)"
  by code_simp

section \<open>Properties of the tolerant numbers\<close>

subsection \<open>The nearest \<open>float64\<close> of a large number\<close>

lemma pow2_powi: "pow2 e = 2 powi e"
  by (simp add: pow2_def power_int_def field_simps)

lemma pow2_pos: "0 < pow2 e"
  by (simp add: pow2_powi)

lemma pow2_diff: "pow2 (a - b) = pow2 a / pow2 b"
  by (simp add: pow2_powi power_int_diff)

lemma pow2_mono: "a \<le> b \<Longrightarrow> pow2 a \<le> pow2 b"
  by (simp add: pow2_powi power_int_increasing)

lemma pow2_nat: "pow2 (int n) = 2 ^ n"
  by (simp add: pow2_def)

lemma floor_log2_le:
  assumes "0 < q"
  shows "pow2 (floor_log2 q) \<le> q"
proof -
  obtain a b where ab: "quotient_of q = (a, b)"
    by (cases "quotient_of q")
  then have b: "0 < b" and q: "q = of_int a / of_int b"
    by (simp_all add: quotient_of_denom_pos quotient_of_div)
  with assms have a: "0 < a"
    by (simp add: zero_less_divide_iff)
  let ?d = "bitlen a - bitlen b"
  show ?thesis
  proof (cases "pow2 ?d \<le> q")
    case True
    with ab show ?thesis
      by (simp add: floor_log2_def)
  next
    case False
    from a have la: "2 ^ nat (bitlen a - 1) \<le> a" and "0 < bitlen a"
      using bitlen_bounds [of a] bitlen_eq_zero_iff [of a] bitlen_nonneg [of a] by auto
    from b have lb: "b < 2 ^ nat (bitlen b)"
      using bitlen_bounds [of b] by simp
    have "pow2 (?d - 1) = pow2 (bitlen a - 1) / pow2 (bitlen b)"
      using pow2_diff [of "bitlen a - 1" "bitlen b"] by (simp add: algebra_simps)
    also have "\<dots> = 2 ^ nat (bitlen a - 1) / 2 ^ nat (bitlen b)"
      using \<open>0 < bitlen a\<close> bitlen_nonneg [of b] by (simp add: pow2_def)
    also have "\<dots> \<le> of_int a / of_int b"
    proof (rule frac_le)
      from la have "(of_int (2 ^ nat (bitlen a - 1)) :: rat) \<le> of_int a"
        by (simp only: of_int_le_iff)
      then show "(2::rat) ^ nat (bitlen a - 1) \<le> of_int a" by simp
      from lb have "(of_int b :: rat) \<le> of_int (2 ^ nat (bitlen b))"
        by (simp only: of_int_le_iff)
      then show "(of_int b :: rat) \<le> 2 ^ nat (bitlen b)" by simp
      from b show "(0::rat) < of_int b" by simp
      from a show "(0::rat) \<le> of_int a" by simp
    qed
    finally have "pow2 (?d - 1) \<le> q"
      using q by simp
    with False ab show ?thesis
      by (simp add: floor_log2_def)
  qed
qed

lemma round_half_even_ge:
  assumes "of_int n \<le> x"
  shows "n \<le> round_half_even x"
proof -
  from assms have "n \<le> \<lfloor>x\<rfloor>" by (simp add: le_floor_iff)
  then show ?thesis
    by (simp add: round_half_even_def Let_def)
qed

lemma float64_nearest_overflow:
  assumes "2 ^ 1024 \<le> q"
  shows "2 ^ 1024 \<le> float64_nearest q"
proof -
  from assms have q: "0 < q"
    by (rule less_le_trans [rotated]) simp
  define e where "e = max (floor_log2 q - 52) (- 1074)"
  define r where "r = round_half_even (q / pow2 e)"
  have nearest: "float64_nearest q = of_int r * pow2 e"
    using q by (simp add: float64_nearest_def e_def r_def Let_def)
  have big: "pow2 1024 \<le> q"
    using assms pow2_nat [of 1024] by simp
  have "pow2 1024 \<le> of_int r * pow2 e"
  proof (cases "e \<le> 1024")
    case True
    have "of_int (2 ^ nat (1024 - e)) = pow2 (1024 - e)"
      using True by (simp add: pow2_def)
    also have "\<dots> = pow2 1024 / pow2 e"
      by (rule pow2_diff)
    also have "\<dots> \<le> q / pow2 e"
      using big pow2_pos [of e] by (simp add: divide_right_mono)
    finally have "2 ^ nat (1024 - e) \<le> r"
      unfolding r_def by (rule round_half_even_ge)
    then have "(of_int (2 ^ nat (1024 - e)) :: rat) \<le> of_int r"
      by (simp only: of_int_le_iff)
    then have "pow2 (1024 - e) \<le> of_int r"
      using True by (simp add: pow2_def)
    then have "pow2 (1024 - e) * pow2 e \<le> of_int r * pow2 e"
      using pow2_pos [of e] by (simp add: mult_right_mono)
    then show ?thesis
      using pow2_pos [of e] by (simp add: pow2_diff)
  next
    case False
    then have e: "e = floor_log2 q - 52"
      by (simp add: e_def max_def split: if_splits)
    have "of_int 1 \<le> pow2 52"
      by (simp add: pow2_def)
    also have "\<dots> = pow2 (floor_log2 q) / pow2 e"
      using pow2_diff [of "floor_log2 q" e] by (simp add: e)
    also have "\<dots> \<le> q / pow2 e"
      using floor_log2_le [OF q] pow2_pos [of e] by (simp add: divide_right_mono)
    finally have "1 \<le> r"
      unfolding r_def by (rule round_half_even_ge)
    then have "(1::rat) \<le> of_int r" by simp
    then have "1 * pow2 e \<le> of_int r * pow2 e"
      using pow2_pos [of e] by (intro mult_right_mono) simp_all
    moreover from False have "pow2 1024 \<le> pow2 e"
      by (intro pow2_mono) simp
    ultimately show ?thesis by simp
  qed
  with nearest show ?thesis
    using pow2_nat [of 1024] by simp
qed

subsection \<open>A number of 310 digits\<close>

lemma is_digit_0: "is_digit CHR ''0''" and is_digit_1: "is_digit CHR ''1''"
  by (simp_all add: is_digit_def)

lemma digits_value_zeros:
  "foldl (\<lambda>n c. n * 10 + digit_of c) n (replicate k CHR ''0'') = n * 10 ^ k"
  by (induction k arbitrary: n) (simp_all add: digit_of_def)

lemma readFloat_huge_number: "readFloat huge_number = Some (False, 10 ^ 309)"
proof -
  have tw: "takeWhile is_digit huge_number = huge_number"
    and dw: "dropWhile is_digit huge_number = []"
    by (simp_all add: huge_number_def is_digit_0 is_digit_1)
  have one: "digit_of CHR ''1'' = 1"
    by (simp add: digit_of_def)
  have dv: "digits_value huge_number = 10 ^ 309"
    by (simp add: digits_value_def huge_number_def digits_value_zeros one)
  have h: "hd huge_number = CHR ''1''" and ne: "huge_number \<noteq> []"
    by (simp_all add: huge_number_def)
  have "readFloat huge_number = Some (False, of_int (digits_value huge_number))"
    by (simp add: readFloat_def Let_def h ne tw dw)
  then show ?thesis
    by (simp only: dv) simp
qed

lemma ParseFloat_huge_number: "ParseFloat huge_number = Inl ErrRange"
proof -
  have "(2::rat) ^ 1024 \<le> 10 ^ 309"
    by simp
  then have "2 ^ 1024 \<le> float64_nearest (10 ^ 309)"
    by (rule float64_nearest_overflow)
  then show ?thesis
    by (simp add: ParseFloat_def readFloat_huge_number)
qed

subsection \<open>The claim about the tolerant numbers\<close>

text \<open>
  The three encodings of a price of 15000. A JSON string \<open>"15000"\<close> and a JSON
  number \<open>15000\<close> both reach \<open>jsonNumberToInt\<close> as the text \<open>15000\<close>, which the integer
  parse reads; the text \<open>15000.0\<close> fails the integer parse and is read as a float.
\<close>

lemma jsonNumberToInt_integer_text:
  "isValidNumber ''15000'' \<and> ParseInt ''15000'' = (15000, None)
   \<and> jsonNumberToInt conv ''15000'' = 15000"
proof -
  have 1: "ParseInt ''15000'' = (15000, None)"
    by code_simp
  have 2: "isValidNumber ''15000''"
    by code_simp
  from 1 2 show ?thesis
    by (simp add: jsonNumberToInt_def)
qed

lemma jsonNumberToInt_float_text:
  "isValidNumber ''15000.0'' \<and> ParseInt ''15000.0'' = (0, Some ErrSyntax)
   \<and> ParseFloat ''15000.0'' = Inr 15000
   \<and> jsonNumberToInt conv ''15000.0'' = 15000"
proof -
  have 1: "ParseInt ''15000.0'' = (0, Some ErrSyntax)"
    by code_simp
  have 2: "ParseFloat ''15000.0'' = Inr 15000"
    by code_simp
  have 3: "isValidNumber ''15000.0''"
    by code_simp
  from 1 2 3 show ?thesis
    by (simp add: jsonNumberToInt_def float64_to_int_def toward_zero_def)
qed

text \<open>The empty text, and a text that all three parses reject as a syntax error, give 0.\<close>

lemma jsonNumberToInt_empty: "jsonNumberToInt conv [] = 0"
  by (simp add: jsonNumberToInt_def)

lemma jsonNumberToInt_syntax_error:
  "ParseInt ''12a'' = (0, Some ErrSyntax) \<and> ParseFloat ''12a'' = Inl ErrSyntax
   \<and> Atoi ''12a'' = (0, Some ErrSyntax) \<and> jsonNumberToInt conv ''12a'' = 0"
proof -
  have 1: "ParseInt ''12a'' = (0, Some ErrSyntax)"
    by code_simp
  have 2: "ParseFloat ''12a'' = Inl ErrSyntax"
    by code_simp
  from 1 2 show ?thesis
    by (simp add: jsonNumberToInt_def Atoi_def)
qed

text \<open>
  Claim C9, at a failing input: the price is the JSON number 1 followed by 309 zeros,
  a valid number literal, which the decoder stores in the \<open>json.Number\<close> as it is. The
  integer parse fails with a range error, the float parse fails with a range error,
  and the raw-string parse \<open>strconv.Atoi\<close> fails with a range error too. All three
  have failed, and \<open>jsonNumberToInt\<close> returns not 0 but the value that \<open>Atoi\<close> hands
  back beside its error, the largest \<open>int\<close>: the error of \<open>Atoi\<close> is discarded.
\<close>

theorem jsonNumberToInt_range_error_not_zero:
  "isValidNumber huge_number
   \<and> ParseInt huge_number = (9223372036854775807, Some ErrRange)
   \<and> ParseFloat huge_number = Inl ErrRange
   \<and> Atoi huge_number = (9223372036854775807, Some ErrRange)
   \<and> jsonNumberToInt conv huge_number = 9223372036854775807"
proof -
  have 1: "isValidNumber huge_number"
    by code_simp
  have 2: "ParseInt huge_number = (9223372036854775807, Some ErrRange)"
    by code_simp
  have 3: "huge_number \<noteq> []"
    by (simp add: huge_number_def)
  from 1 2 3 show ?thesis
    by (simp add: jsonNumberToInt_def ParseFloat_huge_number Atoi_def)
qed

end
